theory Spec2Isabelle
  imports Main "HOL-Library.Multiset" "HOL-Library.Char_ord" "HOL-Library.List_Lexorder"
begin

chapter \<open>AgentCli demo project: the priority queue and the minigtest runner\<close>

text \<open>
  The development embeds two parts of the repository. The first is the array-backed
  min-heap of the demo calculator (\<^verbatim>\<open>heap_sift_up\<close>, \<^verbatim>\<open>heap_sift_down\<close>,
  \<^verbatim>\<open>min_heap_insert\<close>, \<^verbatim>\<open>min_heap_delete_min\<close>, \<^verbatim>\<open>min_heap_peek_min\<close>). The second is the
  test runner in \<^verbatim>\<open>third_party/minigtest\<close> (\<^verbatim>\<open>AddFailure\<close>, the assertion helpers and
  macros, \<^verbatim>\<open>InitGoogleTest\<close>, \<^verbatim>\<open>WriteXmlReport\<close>, \<^verbatim>\<open>RunAllTests\<close>).
\<close>

section \<open>The min-heap: definitions\<close>

text \<open>
  The queue is a caller-owned buffer \<^verbatim>\<open>int* heap\<close> with explicit \<^verbatim>\<open>size\<close> and
  \<^verbatim>\<open>capacity\<close>; the three variables the caller passes by address form the record
  \<open>min_heap\<close>. The buffer is the list of its cells (\<^verbatim>\<open>NULL\<close> is the empty list). Stored
  values are integers: the code only copies and compares them. Sizes, capacities and
  indices are the non-negative values of a 32-bit \<^verbatim>\<open>int\<close>, kept as natural numbers with the
  bound \<open>INT_MAX\<close> checked wherever the code computes a larger one. Undefined behaviour
  of the C code is the result \<open>None\<close>: a read or write outside the buffer, a write through
  the null pointer that a failed allocation returns, and signed overflow.
\<close>

definition INT_MAX :: nat where
  "INT_MAX = 2147483647"

record min_heap =
  q_heap :: "int list"
  q_size :: nat
  q_capacity :: nat

text \<open>
  Allocation. Whether a request for \<open>n\<close> cells succeeds is decided by the environment,
  the parameter \<open>alloc_ok\<close>; a failed request returns the null pointer (\<open>None\<close>). Freshly
  allocated cells hold indeterminate values: the parameter \<open>junk\<close> gives the value found in
  the cell at each offset, so every statement below holds for all such contents.
  \<^verbatim>\<open>realloc\<close> keeps the old cells up to the smaller of the two sizes.
\<close>

definition malloc :: "(nat \<Rightarrow> bool) \<Rightarrow> (nat \<Rightarrow> int) \<Rightarrow> nat \<Rightarrow> int list option" where
  "malloc alloc_ok junk n = (if alloc_ok n then Some (map junk [0..<n]) else None)"

definition realloc ::
    "(nat \<Rightarrow> bool) \<Rightarrow> (nat \<Rightarrow> int) \<Rightarrow> int list \<Rightarrow> nat \<Rightarrow> int list option" where
  "realloc alloc_ok junk buf n =
     (if alloc_ok n then Some (take n buf @ map junk [length buf..<n]) else None)"

text \<open>
  \<^verbatim>\<open>while (idx > 0) { parent = (idx - 1) / 2; if (heap[parent] <= heap[idx]) break; swap; idx = parent; }\<close>
\<close>

function heap_sift_up :: "int list \<Rightarrow> nat \<Rightarrow> int list option" where
  "heap_sift_up heap idx =
     (if idx > 0 then
        (let parent = (idx - 1) div 2 in
         if length heap \<le> idx then None
         else if heap ! parent \<le> heap ! idx then Some heap
         else heap_sift_up (heap[parent := heap ! idx, idx := heap ! parent]) parent)
      else Some heap)"
  by pat_completeness auto
termination
  by (relation "measure (\<lambda>(heap, idx). idx)") auto

declare heap_sift_up.simps [simp del]

text \<open>
  The loop of \<^verbatim>\<open>heap_sift_down\<close>: the smaller child below \<open>sz\<close> is swapped upwards until
  neither child is smaller. Both child indices are computed in \<^verbatim>\<open>int\<close> at the start of every
  round, so \<open>idx * 2 + 2\<close> must not exceed \<open>INT_MAX\<close>. A child index below \<open>sz\<close> is read, so
  it must lie in the buffer.
\<close>

function heap_sift_down :: "int list \<Rightarrow> nat \<Rightarrow> nat \<Rightarrow> int list option" where
  "heap_sift_down heap sz idx =
     (let left = idx * 2 + 1; right = idx * 2 + 2 in
      if INT_MAX < right then None
      else if left < sz \<and> length heap \<le> left then None
      else if right < sz \<and> length heap \<le> right then None
      else
        (let smallest = (if left < sz \<and> heap ! left < heap ! idx then left else idx);
             smallest = (if right < sz \<and> heap ! right < heap ! smallest then right else smallest)
         in if smallest = idx then Some heap
            else heap_sift_down (heap[smallest := heap ! idx, idx := heap ! smallest]) sz smallest))"
  by pat_completeness auto
termination
  by (relation "measure (\<lambda>(heap, sz, idx). sz - idx)") (auto split: if_splits)

declare heap_sift_down.simps [simp del]

text \<open>
  \<^verbatim>\<open>min_heap_insert\<close>: allocate ten cells when the capacity is zero, double the buffer when
  it is full, store the value at index \<open>size\<close>, increment \<open>size\<close>, sift the new cell up.
  The doubling \<^verbatim>\<open>*capacity *= 2\<close> overflows when the result exceeds \<open>INT_MAX\<close>. The result
  of \<^verbatim>\<open>malloc\<close> or \<^verbatim>\<open>realloc\<close> is not checked, so after a failed allocation the store goes
  through the null pointer. \<open>grow\<close> is the first part of the function, up to the store.
\<close>

definition grow :: "(nat \<Rightarrow> bool) \<Rightarrow> (nat \<Rightarrow> int) \<Rightarrow> min_heap \<Rightarrow> min_heap option" where
  "grow alloc_ok junk h =
     (if q_capacity h = 0 then
        (case malloc alloc_ok junk 10 of
           None \<Rightarrow> None
         | Some buf \<Rightarrow> Some (h\<lparr>q_capacity := 10, q_heap := buf\<rparr>))
      else if q_capacity h \<le> q_size h then
        (if INT_MAX < q_capacity h * 2 then None
         else
           (case realloc alloc_ok junk (q_heap h) (q_capacity h * 2) of
              None \<Rightarrow> None
            | Some buf \<Rightarrow> Some (h\<lparr>q_capacity := q_capacity h * 2, q_heap := buf\<rparr>)))
      else Some h)"

definition min_heap_insert ::
    "(nat \<Rightarrow> bool) \<Rightarrow> (nat \<Rightarrow> int) \<Rightarrow> min_heap \<Rightarrow> int \<Rightarrow> min_heap option" where
  "min_heap_insert alloc_ok junk h v =
     (case grow alloc_ok junk h of
        None \<Rightarrow> None
      | Some h1 \<Rightarrow>
          if length (q_heap h1) \<le> q_size h1 \<or> INT_MAX \<le> q_size h1 then None
          else (case heap_sift_up ((q_heap h1)[q_size h1 := v]) (q_size h1 + 1 - 1) of
                  None \<Rightarrow> None
                | Some buf \<Rightarrow> Some (h1\<lparr>q_heap := buf, q_size := q_size h1 + 1\<rparr>)))"

text \<open>
  \<^verbatim>\<open>min_heap_delete_min\<close> returns \<open>-1\<close> on the empty queue; otherwise it returns the root,
  moves the last element to the root, decrements \<open>size\<close> and sifts down when elements remain.
  The result pairs the returned \<^verbatim>\<open>int\<close> with the caller's variables after the call.
\<close>

definition min_heap_delete_min :: "min_heap \<Rightarrow> (int \<times> min_heap) option" where
  "min_heap_delete_min h =
     (if q_size h = 0 then Some (- 1, h)
      else if length (q_heap h) < q_size h then None
      else
        (let m = q_heap h ! 0;
             buf = (q_heap h)[0 := q_heap h ! (q_size h - 1)];
             n = q_size h - 1
         in if n > 0
            then (case heap_sift_down buf n 0 of
                    None \<Rightarrow> None
                  | Some buf' \<Rightarrow> Some (m, h\<lparr>q_heap := buf', q_size := n\<rparr>))
            else Some (m, h\<lparr>q_heap := buf, q_size := n\<rparr>)))"

definition min_heap_peek_min :: "int list \<Rightarrow> nat \<Rightarrow> int option" where
  "min_heap_peek_min heap sz =
     (if sz = 0 then Some (- 1)
      else if heap = [] then None
      else Some (heap ! 0))"

text \<open>The state \<^verbatim>\<open>heap = NULL, size = 0, capacity = 0\<close> from which the test starts.\<close>

definition empty_queue :: min_heap where
  "empty_queue = \<lparr>q_heap = [], q_size = 0, q_capacity = 0\<rparr>"

text \<open>Inserting the elements of a list one after the other, and \<open>n\<close> successive extractions.\<close>

fun insert_all ::
    "(nat \<Rightarrow> bool) \<Rightarrow> (nat \<Rightarrow> int) \<Rightarrow> min_heap \<Rightarrow> int list \<Rightarrow> min_heap option" where
  "insert_all alloc_ok junk h [] = Some h"
| "insert_all alloc_ok junk h (x # xs) =
     (case min_heap_insert alloc_ok junk h x of
        None \<Rightarrow> None
      | Some h' \<Rightarrow> insert_all alloc_ok junk h' xs)"

fun delete_n :: "nat \<Rightarrow> min_heap \<Rightarrow> (int list \<times> min_heap) option" where
  "delete_n 0 h = Some ([], h)"
| "delete_n (Suc n) h =
     (case min_heap_delete_min h of
        None \<Rightarrow> None
      | Some (m, h') \<Rightarrow>
          (case delete_n n h' of
             None \<Rightarrow> None
           | Some (ms, h'') \<Rightarrow> Some (m # ms, h'')))"

text \<open>
  The heap order on the first \<open>n\<close> cells, and the two weakened forms that hold while one
  cell \<open>k\<close> is being sifted: in \<open>up_except\<close> the cell \<open>k\<close> may be smaller than its parent, in
  \<open>down_except\<close> it may be larger than its children; in both, the children of \<open>k\<close> respect
  the parent of \<open>k\<close>.
\<close>

definition is_heap :: "nat \<Rightarrow> int list \<Rightarrow> bool" where
  "is_heap n a = (\<forall>i. 0 < i \<and> i < n \<longrightarrow> a ! ((i - 1) div 2) \<le> a ! i)"

definition up_except :: "nat \<Rightarrow> int list \<Rightarrow> nat \<Rightarrow> bool" where
  "up_except n a k =
     ((\<forall>i. 0 < i \<and> i < n \<and> i \<noteq> k \<longrightarrow> a ! ((i - 1) div 2) \<le> a ! i) \<and>
      (\<forall>i. 0 < i \<and> i < n \<and> (i - 1) div 2 = k \<and> 0 < k \<longrightarrow> a ! ((k - 1) div 2) \<le> a ! i))"


text \<open>
  A well-formed queue: the live cells fit the buffer, the buffer has \<open>capacity\<close> cells and
  the live cells are heap-ordered. Its contents are the multiset of the live cells.
\<close>

definition heap_ok :: "min_heap \<Rightarrow> bool" where
  "heap_ok h = (q_size h \<le> length (q_heap h) \<and> length (q_heap h) = q_capacity h \<and>
     is_heap (q_size h) (q_heap h))"

definition contents :: "min_heap \<Rightarrow> int multiset" where
  "contents h = mset (take (q_size h) (q_heap h))"

text \<open>
  The capacities that \<open>min_heap_insert\<close> produces from the empty queue: zero, or ten times a
  power of two that is less than twice the size once it exceeds ten.
\<close>

definition capacity_ok :: "min_heap \<Rightarrow> bool" where
  "capacity_ok h =
     (q_capacity h = 0 \<and> q_size h = 0 \<or>
      (\<exists>k. q_capacity h = 10 * 2 ^ k \<and> (q_capacity h \<le> 10 \<or> q_capacity h < 2 * q_size h)))"

section \<open>The test runner: definitions\<close>

text \<open>
  The structs of \<^verbatim>\<open>gtest.h\<close>. The field \<^verbatim>\<open>file\<close> is named \<open>file_name\<close> here.
\<close>

record AssertionRecord =
  fatal :: bool
  message :: string
  file_name :: string
  line :: int

record TestContext =
  failures :: "AssertionRecord list"

text \<open>
  What a test body can throw: the abort signal \<^verbatim>\<open>AssertionException\<close>, another exception
  derived from \<^verbatim>\<open>std::exception\<close> (with its \<^verbatim>\<open>what()\<close> text), or anything else.
\<close>

datatype exn = AssertionException | StdException string | NonStdException

text \<open>
  The state of the translation unit \<^verbatim>\<open>gtest.cpp\<close>: the pointer \<^verbatim>\<open>current_context\<close> (null,
  or pointing to the context of the running test, whose contents are kept with it) and
  \<^verbatim>\<open>g_output_path\<close>. The component \<open>world\<close> stands for the variables of the test program
  itself. The registry is read-only during a run and is passed as the list of its entries.
\<close>

record 'w globals =
  current_context :: "TestContext option"
  g_output_path :: string
  world :: 'w

text \<open>
  A statement, and in particular a test body (\<^verbatim>\<open>std::function<void()>\<close>), transforms the
  state and either completes or throws. \<open>seq p q\<close> is the statement sequence \<^verbatim>\<open>p; q\<close>: when
  \<open>p\<close> throws, \<open>q\<close> is not executed.
\<close>

type_synonym 'w stmt = "'w globals \<Rightarrow> exn option \<times> 'w globals"

record 'w TestInfo =
  suite :: string
  name :: string
  func :: "'w stmt"


text \<open>
  \<^verbatim>\<open>AddFailure\<close>: return at once when no context is installed; otherwise append the record
  and, when \<open>fatal\<close>, throw \<^verbatim>\<open>AssertionException\<close>.
\<close>

definition AddFailure :: "string \<Rightarrow> int \<Rightarrow> string \<Rightarrow> bool \<Rightarrow> 'w stmt" where
  "AddFailure fl ln msg ftl st =
     (case current_context st of
        None \<Rightarrow> (None, st)
      | Some ctx \<Rightarrow>
          (let st' = st\<lparr>current_context := Some (ctx\<lparr>failures := failures ctx @
                         [\<lparr>fatal = ftl, message = msg, file_name = fl, line = ln\<rparr>]\<rparr>)\<rparr>
           in if ftl then (Some AssertionException, st') else (None, st')))"

text \<open>
  The assertion helpers of \<^verbatim>\<open>gtest.h\<close>. The templates print their operands with
  \<^verbatim>\<open>operator<<\<close>, which is the parameter \<open>shw\<close>.
\<close>

definition values_message :: "string \<Rightarrow> string \<Rightarrow> string \<Rightarrow> string \<Rightarrow> string \<Rightarrow> string" where
  "values_message what a_expr a_str b_expr b_str =
     ''Expected '' @ what @ '' of these values:\<newline>  '' @ a_expr @
     ''\<newline>    Which is: '' @ a_str @ ''\<newline>  '' @ b_expr @
     ''\<newline>    Which is: '' @ b_str"

definition ExpectEqual ::
    "('a \<Rightarrow> string) \<Rightarrow> 'a \<Rightarrow> 'a \<Rightarrow> string \<Rightarrow> string \<Rightarrow> string \<Rightarrow> int \<Rightarrow> bool \<Rightarrow> 'w stmt" where
  "ExpectEqual shw a b a_expr b_expr fl ln ftl st =
     (if a = b then (None, st)
      else AddFailure fl ln (values_message ''equality'' a_expr (shw a) b_expr (shw b)) ftl st)"


definition ExpectNotEqual ::
    "('a \<Rightarrow> string) \<Rightarrow> 'a \<Rightarrow> 'a \<Rightarrow> string \<Rightarrow> string \<Rightarrow> string \<Rightarrow> int \<Rightarrow> bool \<Rightarrow> 'w stmt" where
  "ExpectNotEqual shw a b a_expr b_expr fl ln ftl st =
     (if a \<noteq> b then (None, st)
      else AddFailure fl ln (values_message ''inequality'' a_expr (shw a) b_expr (shw b)) ftl st)"

definition ExpectTrue :: "bool \<Rightarrow> string \<Rightarrow> string \<Rightarrow> int \<Rightarrow> bool \<Rightarrow> 'w stmt" where
  "ExpectTrue cond expr fl ln ftl st =
     (if cond then (None, st)
      else AddFailure fl ln (''Expected: '' @ expr @ '' is true'') ftl st)"

text \<open>
  The macros; \<^verbatim>\<open>__FILE__\<close> and \<^verbatim>\<open>__LINE__\<close> and the stringified operands are arguments.
\<close>

definition EXPECT_EQ :: "('a \<Rightarrow> string) \<Rightarrow> 'a \<Rightarrow> 'a \<Rightarrow> string \<Rightarrow> string \<Rightarrow> string \<Rightarrow> int \<Rightarrow> 'w stmt" where
  "EXPECT_EQ shw a b a_expr b_expr fl ln = ExpectEqual shw a b a_expr b_expr fl ln False"


definition EXPECT_NE :: "('a \<Rightarrow> string) \<Rightarrow> 'a \<Rightarrow> 'a \<Rightarrow> string \<Rightarrow> string \<Rightarrow> string \<Rightarrow> int \<Rightarrow> 'w stmt" where
  "EXPECT_NE shw a b a_expr b_expr fl ln = ExpectNotEqual shw a b a_expr b_expr fl ln False"

definition ASSERT_NE :: "('a \<Rightarrow> string) \<Rightarrow> 'a \<Rightarrow> 'a \<Rightarrow> string \<Rightarrow> string \<Rightarrow> string \<Rightarrow> int \<Rightarrow> 'w stmt" where
  "ASSERT_NE shw a b a_expr b_expr fl ln = ExpectNotEqual shw a b a_expr b_expr fl ln True"


definition ASSERT_TRUE :: "bool \<Rightarrow> string \<Rightarrow> string \<Rightarrow> int \<Rightarrow> 'w stmt" where
  "ASSERT_TRUE expr expr_text fl ln = ExpectTrue expr expr_text fl ln True"

definition EXPECT_FALSE :: "bool \<Rightarrow> string \<Rightarrow> string \<Rightarrow> int \<Rightarrow> 'w stmt" where
  "EXPECT_FALSE expr expr_text fl ln = ExpectTrue (\<not> expr) expr_text fl ln False"

definition ASSERT_FALSE :: "bool \<Rightarrow> string \<Rightarrow> string \<Rightarrow> int \<Rightarrow> 'w stmt" where
  "ASSERT_FALSE expr expr_text fl ln = ExpectTrue (\<not> expr) expr_text fl ln True"

text \<open>
  \<^verbatim>\<open>InitGoogleTest\<close> scans \<^verbatim>\<open>argv[1]\<close> to \<^verbatim>\<open>argv[argc - 1]\<close>; \<^verbatim>\<open>arg.rfind(prefix, 0) == 0\<close>
  holds exactly when \<open>arg\<close> starts with the prefix.
\<close>

definition gtest_output_prefix :: string where
  "gtest_output_prefix = ''--gtest_output=xml:''"

definition starts_with :: "string \<Rightarrow> string \<Rightarrow> bool" where
  "starts_with prefix arg = (take (length prefix) arg = prefix)"

fun InitGoogleTest_args :: "string list \<Rightarrow> 'w globals \<Rightarrow> 'w globals" where
  "InitGoogleTest_args [] st = st"
| "InitGoogleTest_args (arg # args) st =
     InitGoogleTest_args args
       (if starts_with gtest_output_prefix arg
        then st\<lparr>g_output_path := drop (length gtest_output_prefix) arg\<rparr>
        else st)"

definition InitGoogleTest :: "string list \<Rightarrow> 'w globals \<Rightarrow> 'w globals" where
  "InitGoogleTest argv st = InitGoogleTest_args (drop 1 argv) st"

text \<open>
  Arithmetic in \<^verbatim>\<open>int\<close>: \<open>int32\<close> is the value that a 32-bit \<^verbatim>\<open>int\<close> holds after a conversion or
  an addition whose exact result is \<open>x\<close> (two's complement, wrapping around). It is used
  for the failure counters of the report, which add \<^verbatim>\<open>static_cast<int>(f.size())\<close>.

  Stream output of numbers. Integers are written in decimal. A duration is a whole number
  of milliseconds (\<^verbatim>\<open>duration_cast<milliseconds>(...).count()\<close>) and the value written is
  that number divided by \<open>1000.0\<close>; the model keeps the milliseconds and renders the
  quotient by integer arithmetic, which agrees with the rounding of the binary value at
  three decimals. \<open>fixed3\<close> is the rendering under
  \<^verbatim>\<open>std::fixed << std::setprecision(3)\<close>. \<open>general6\<close> is the default rendering of the stream
  (six significant digits, trailing zeros and a trailing point removed), exact below
  \<open>1000\<close> seconds; beyond that the result depends on the rounding of the binary value
  and is left to the parameter \<open>large\<close>. Both format flags are sticky: \<open>put_double\<close> takes
  the flag that tells whether they have been set on the stream.
\<close>

definition int32 :: "int \<Rightarrow> int" where
  "int32 x = (x + 2147483648) mod 4294967296 - 2147483648"

definition digit_char :: "nat \<Rightarrow> char" where
  "digit_char d = ''0123456789'' ! d"

fun show_nat :: "nat \<Rightarrow> string" where
  "show_nat n = (if n < 10 then [digit_char n] else show_nat (n div 10) @ [digit_char (n mod 10)])"

declare show_nat.simps [simp del]

definition show_int :: "int \<Rightarrow> string" where
  "show_int i = (if i < 0 then ''-'' @ show_nat (nat (- i)) else show_nat (nat i))"

definition pad3 :: "nat \<Rightarrow> string" where
  "pad3 r = [digit_char (r div 100 mod 10), digit_char (r div 10 mod 10), digit_char (r mod 10)]"

definition fixed3 :: "nat \<Rightarrow> string" where
  "fixed3 ms = show_nat (ms div 1000) @ ''.'' @ pad3 (ms mod 1000)"

definition strip_zeros :: "string \<Rightarrow> string" where
  "strip_zeros s = rev (dropWhile (\<lambda>c. c = CHR ''0'') (rev s))"

definition general6 :: "(nat \<Rightarrow> string) \<Rightarrow> nat \<Rightarrow> string" where
  "general6 large ms =
     (if ms < 1000000
      then show_nat (ms div 1000) @
           (if ms mod 1000 = 0 then [] else ''.'' @ strip_zeros (pad3 (ms mod 1000)))
      else large ms)"

definition put_double :: "(nat \<Rightarrow> string) \<Rightarrow> bool \<Rightarrow> nat \<Rightarrow> string" where
  "put_double large fixed_set ms = (if fixed_set then fixed3 ms else general6 large ms)"

text \<open>
  What a run takes from its environment: the elapsed milliseconds measured for the test at
  each index, \<^verbatim>\<open>fs::path::parent_path\<close>, whether \<^verbatim>\<open>fs::create_directories\<close> fails on a
  directory (it then throws \<^verbatim>\<open>filesystem_error\<close> with the given \<^verbatim>\<open>what()\<close> text), whether the
  output stream opens, and the default rendering of large doubles. The effects on the
  file system and on \<^verbatim>\<open>std::cerr\<close> are returned as a list of events. The progress lines
  written to \<^verbatim>\<open>std::cout\<close> are not part of the model.
\<close>

record env =
  elapsed_ms :: "nat \<Rightarrow> nat"
  parent_path :: "string \<Rightarrow> string"
  create_directories_error :: "string \<Rightarrow> string option"
  ofstream_is_open :: "string \<Rightarrow> bool"
  large_double :: "nat \<Rightarrow> string"

datatype io_event =
    CreateDirectories string
  | StderrLine string
  | WriteFile string string

text \<open>
  \<^verbatim>\<open>std::map<std::string, std::vector<size_t>>\<close> as an association list kept in ascending
  key order, which is the order in which the map is iterated. \<open>suite_map_push m key i\<close> is
  \<^verbatim>\<open>m[key].push_back(i)\<close>. Strings are compared as \<^verbatim>\<open>std::string\<close> compares them:
  lexicographically, by character code.
\<close>

type_synonym suite_map = "(string \<times> nat list) list"

fun suite_map_push :: "suite_map \<Rightarrow> string \<Rightarrow> nat \<Rightarrow> suite_map" where
  "suite_map_push [] key i = [(key, [i])]"
| "suite_map_push ((k, v) # m) key i =
     (if key = k then (k, v @ [i]) # m
      else if key < k then (key, [i]) # (k, v) # m
      else (k, v) # suite_map_push m key i)"

definition group_by_suite :: "'w TestInfo list \<Rightarrow> suite_map" where
  "group_by_suite tests =
     foldl (\<lambda>m i. suite_map_push m (suite (tests ! i)) i) [] [0..<length tests]"

text \<open>
  The elements written to the report, with the attributes whose values are computed, and
  the functions that compute them as the loops of \<^verbatim>\<open>WriteXmlReport\<close> do. The suite time is
  written before the first test case of the suite sets the stream to fixed notation, so
  \<open>testsuites_of\<close> threads the flag through the suites.
\<close>

record testcase_el =
  tc_name :: string
  tc_result :: string
  tc_time :: string
  tc_classname :: string
  tc_failures :: "AssertionRecord list"

record testsuite_el =
  ts_name :: string
  ts_tests :: nat
  ts_failures :: int
  ts_time :: string
  ts_cases :: "testcase_el list"

record testsuites_el =
  tss_tests :: nat
  tss_failures :: int
  tss_suites :: "testsuite_el list"

definition testcase_of ::
    "'w TestInfo list \<Rightarrow> AssertionRecord list list \<Rightarrow> nat list \<Rightarrow> string \<Rightarrow> nat \<Rightarrow> testcase_el" where
  "testcase_of tests fails durations s idx =
     \<lparr>tc_name = name (tests ! idx),
      tc_result = (if fails ! idx = [] then ''completed'' else ''failed''),
      tc_time = fixed3 (durations ! idx),
      tc_classname = s,
      tc_failures = fails ! idx\<rparr>"

definition testsuite_of ::
    "(nat \<Rightarrow> string) \<Rightarrow> bool \<Rightarrow> 'w TestInfo list \<Rightarrow> AssertionRecord list list \<Rightarrow> nat list \<Rightarrow>
     string \<Rightarrow> nat list \<Rightarrow> testsuite_el" where
  "testsuite_of large fixed_set tests fails durations s indices =
     (let suite_failures =
            foldl (\<lambda>acc idx. int32 (acc + int32 (int (length (fails ! idx))))) 0 indices;
          suite_time = foldl (\<lambda>acc idx. acc + durations ! idx) 0 indices
      in \<lparr>ts_name = s,
          ts_tests = length indices,
          ts_failures = suite_failures,
          ts_time = put_double large fixed_set suite_time,
          ts_cases = map (testcase_of tests fails durations s) indices\<rparr>)"

fun testsuites_of ::
    "(nat \<Rightarrow> string) \<Rightarrow> bool \<Rightarrow> 'w TestInfo list \<Rightarrow> AssertionRecord list list \<Rightarrow> nat list \<Rightarrow>
     suite_map \<Rightarrow> testsuite_el list" where
  "testsuites_of large fixed_set tests fails durations [] = []"
| "testsuites_of large fixed_set tests fails durations ((s, indices) # m) =
     testsuite_of large fixed_set tests fails durations s indices #
     testsuites_of large (fixed_set \<or> indices \<noteq> []) tests fails durations m"

definition xml_document ::
    "(nat \<Rightarrow> string) \<Rightarrow> 'w TestInfo list \<Rightarrow> AssertionRecord list list \<Rightarrow> nat list \<Rightarrow> testsuites_el" where
  "xml_document large tests fails durations =
     \<lparr>tss_tests = length tests,
      tss_failures = foldl (\<lambda>total f. int32 (total + int32 (int (length f)))) 0 fails,
      tss_suites = testsuites_of large False tests fails durations (group_by_suite tests)\<rparr>"

text \<open>
  The text written to the stream for each element.
\<close>

definition render_failure :: "AssertionRecord \<Rightarrow> string" where
  \<open>render_failure fail =
     ''      <failure message="'' @ message fail @ ''" type="">\<newline>'' @
     file_name fail @ '':'' @ show_int (line fail) @ ''\<newline>'' @
     message fail @ ''\<newline>'' @
     ''      </failure>\<newline>''\<close>

definition render_testcase :: "testcase_el \<Rightarrow> string" where
  \<open>render_testcase tc =
     ''    <testcase name="'' @ tc_name tc @ ''" status="run" result="'' @ tc_result tc @
     ''" time="'' @ tc_time tc @ ''" classname="'' @ tc_classname tc @ ''">'' @
     (if tc_failures tc \<noteq> []
      then ''\<newline>'' @ concat (map render_failure (tc_failures tc)) @ ''    </testcase>\<newline>''
      else ''</testcase>\<newline>'')\<close>

definition render_testsuite :: "testsuite_el \<Rightarrow> string" where
  \<open>render_testsuite ts =
     ''  <testsuite name="'' @ ts_name ts @ ''" tests="'' @ show_nat (ts_tests ts) @
     ''" failures="'' @ show_int (ts_failures ts) @
     ''" disabled="0" errors="0" time="'' @ ts_time ts @ ''">\<newline>'' @
     concat (map render_testcase (ts_cases ts)) @
     ''  </testsuite>\<newline>''\<close>

definition render_document :: "testsuites_el \<Rightarrow> string" where
  \<open>render_document doc =
     ''<?xml version="1.0" encoding="UTF-8"?>\<newline>'' @
     ''<testsuites tests="'' @ show_nat (tss_tests doc) @ ''" failures="'' @
     show_int (tss_failures doc) @ ''" disabled="0" errors="0">\<newline>'' @
     concat (map render_testsuite (tss_suites doc)) @
     ''</testsuites>\<newline>''\<close>

text \<open>
  \<^verbatim>\<open>WriteXmlReport\<close>: nothing happens when no output path is set; otherwise the parent
  directory is created (an exception of \<^verbatim>\<open>create_directories\<close> is not caught), and the
  report is written when the stream opens, a warning otherwise.
\<close>

definition WriteXmlReport ::
    "env \<Rightarrow> 'w TestInfo list \<Rightarrow> AssertionRecord list list \<Rightarrow> nat list \<Rightarrow> 'w globals \<Rightarrow>
     exn + io_event list" where
  "WriteXmlReport e tests fails durations st =
     (if g_output_path st = [] then Inr []
      else
        (let dir = parent_path e (g_output_path st) in
         case create_directories_error e dir of
           Some what \<Rightarrow> Inl (StdException what)
         | None \<Rightarrow>
             if \<not> ofstream_is_open e (g_output_path st)
             then Inr [CreateDirectories dir,
                       StderrLine (''Warning: failed to write XML report to '' @ g_output_path st)]
             else Inr [CreateDirectories dir,
                       WriteFile (g_output_path st)
                         (render_document (xml_document (large_double e) tests fails durations))]))"

text \<open>
  The \<^verbatim>\<open>try\<close> block around \<^verbatim>\<open>test.func()\<close> with its three handlers. The result says whether
  an exception leaves the block: the two handlers for unexpected exceptions call
  \<^verbatim>\<open>AddFailure\<close> with \<open>fatal = true\<close>.
\<close>

definition run_test_func :: "'w stmt \<Rightarrow> 'w stmt" where
  "run_test_func f st =
     (case f st of
        (None, st') \<Rightarrow> (None, st')
      | (Some AssertionException, st') \<Rightarrow> (None, st')
      | (Some (StdException what), st') \<Rightarrow>
          AddFailure ''unknown'' 0 (''Unhandled exception: '' @ what) True st'
      | (Some NonStdException, st') \<Rightarrow>
          AddFailure ''unknown'' 0 ''Unhandled non-standard exception'' True st')"

text \<open>
  The locals \<^verbatim>\<open>failed\<close>, \<^verbatim>\<open>failures\<close> and \<^verbatim>\<open>durations_ms\<close> of \<^verbatim>\<open>RunAllTests\<close>, and its loop
  from index \<open>i\<close>. \<open>ctx_failures\<close> reads \<^verbatim>\<open>ctx.failures\<close> after the body; the context is
  still installed then, since the pointer is private to \<^verbatim>\<open>gtest.cpp\<close> and a body reaches it
  through \<open>AddFailure\<close> only (the case \<open>None\<close> is there for totality). \<open>Inl\<close> means that an
  exception leaves \<^verbatim>\<open>RunAllTests\<close>; nothing above it catches it, so the process ends in
  \<^verbatim>\<open>std::terminate\<close> and no exit status is returned from \<^verbatim>\<open>main\<close>.
\<close>

record run_state =
  failed :: int
  all_failures :: "AssertionRecord list list"
  durations_ms :: "nat list"

definition ctx_failures :: "'w globals \<Rightarrow> AssertionRecord list" where
  "ctx_failures st = (case current_context st of None \<Rightarrow> [] | Some ctx \<Rightarrow> failures ctx)"

function run_tests ::
    "env \<Rightarrow> 'w TestInfo list \<Rightarrow> nat \<Rightarrow> run_state \<Rightarrow> 'w globals \<Rightarrow> exn + (run_state \<times> 'w globals)" where
  "run_tests e tests i rs st =
     (if i < length tests then
        (case run_test_func (func (tests ! i)) (st\<lparr>current_context := Some \<lparr>failures = []\<rparr>\<rparr>) of
           (Some ex, st') \<Rightarrow> Inl ex
         | (None, st') \<Rightarrow>
             run_tests e tests (i + 1)
               \<lparr>failed = (if ctx_failures st' = [] then failed rs else failed rs + 1),
                all_failures = (all_failures rs)[i := ctx_failures st'],
                durations_ms = (durations_ms rs)[i := elapsed_ms e i]\<rparr>
               (st'\<lparr>current_context := None\<rparr>))
      else Inr (rs, st))"
  by pat_completeness auto
termination
  by (relation "measure (\<lambda>(e, tests, i, rs, st). length tests - i)") auto

declare run_tests.simps [simp del]

definition RunAllTests ::
    "env \<Rightarrow> 'w TestInfo list \<Rightarrow> 'w globals \<Rightarrow> exn + (int \<times> io_event list \<times> 'w globals)" where
  "RunAllTests e tests st =
     (case run_tests e tests 0
             \<lparr>failed = 0, all_failures = replicate (length tests) [],
              durations_ms = replicate (length tests) 0\<rparr> st of
        Inl ex \<Rightarrow> Inl ex
      | Inr (rs, st') \<Rightarrow>
          (case WriteXmlReport e tests (all_failures rs) (durations_ms rs) st' of
             Inl ex \<Rightarrow> Inl ex
           | Inr events \<Rightarrow> Inr (if failed rs = 0 then 0 else 1, events, st')))"

text \<open>
  The state at program start, and \<^verbatim>\<open>GTEST_MAIN\<close>.
\<close>

definition initial_globals :: "'w \<Rightarrow> 'w globals" where
  "initial_globals w = \<lparr>current_context = None, g_output_path = [], world = w\<rparr>"

definition gtest_main ::
    "env \<Rightarrow> 'w TestInfo list \<Rightarrow> string list \<Rightarrow> 'w globals \<Rightarrow> exn + (int \<times> io_event list \<times> 'w globals)" where
  "gtest_main e tests argv st = RunAllTests e tests (InitGoogleTest argv st)"

section \<open>Notions used in the statements\<close>

text \<open>
  The order of first appearance that the specification describes for the report: every
  suite name once, at the position of its first occurrence.
\<close>

fun first_appearance :: "string list \<Rightarrow> string list" where
  "first_appearance [] = []"
| "first_appearance (s # ss) = s # filter (\<lambda>t. t \<noteq> s) (first_appearance ss)"

text \<open>
  A time value with exactly three decimal digits: a non-empty run of digits, a point and
  three digits.
\<close>

definition is_digit :: "char \<Rightarrow> bool" where
  "is_digit c = (c \<in> set ''0123456789'')"

definition three_decimals :: "string \<Rightarrow> bool" where
  "three_decimals s =
     (let ip = takeWhile (\<lambda>c. c \<noteq> CHR ''.'') s;
          fp = dropWhile (\<lambda>c. c \<noteq> CHR ''.'') s
      in ip \<noteq> [] \<and> list_all is_digit ip \<and> length fp = 4 \<and> list_all is_digit (tl fp))"

text \<open>
  A concrete environment for the examples: every test takes \<open>ms\<close> milliseconds, the parent
  of a path \<^verbatim>\<open>dir/file\<close> is \<^verbatim>\<open>dir\<close>, directories can be created unless \<open>mkdir_error\<close> says
  otherwise, and the output stream opens. Two test bodies: one that passes without
  asserting anything, one that throws \<^verbatim>\<open>std::runtime_error("boom")\<close>.
\<close>

definition example_env :: "nat \<Rightarrow> (string \<Rightarrow> string option) \<Rightarrow> env" where
  "example_env ms mkdir_error =
     \<lparr>elapsed_ms = (\<lambda>i. ms),
      parent_path = (\<lambda>p. rev (drop 1 (dropWhile (\<lambda>c. c \<noteq> CHR ''/'') (rev p)))),
      create_directories_error = mkdir_error,
      ofstream_is_open = (\<lambda>p. True),
      large_double = (\<lambda>ms. [])\<rparr>"

definition passing_body :: "unit stmt" where
  "passing_body st = (None, st)"

definition throwing_body :: "unit stmt" where
  "throwing_body st = (Some (StdException ''boom''), st)"


text \<open>
  A test body satisfies \<open>only_aborts\<close> when the only exception it lets out is the abort
  signal of a fatal assertion.
\<close>

definition only_aborts :: "'w stmt \<Rightarrow> bool" where
  "only_aborts f = (\<forall>st ex st'. f st = (Some ex, st') \<longrightarrow> ex = AssertionException)"

text \<open>
  Three registered tests in two suites, with the failures recorded for them and their
  durations, as \<^verbatim>\<open>RunAllTests\<close> hands them to \<^verbatim>\<open>WriteXmlReport\<close>. The suite registered first
  is \<^verbatim>\<open>Beta\<close>.
\<close>

definition report_tests :: "unit TestInfo list" where
  "report_tests =
     [\<lparr>suite = ''Beta'', name = ''First'', func = passing_body\<rparr>,
      \<lparr>suite = ''Alpha'', name = ''Second'', func = passing_body\<rparr>,
      \<lparr>suite = ''Beta'', name = ''Third'', func = passing_body\<rparr>]"

definition report_failures :: "AssertionRecord list list" where
  "report_failures =
     [[],
      [\<lparr>fatal = False, message = ''m1'', file_name = ''t.cpp'', line = 11\<rparr>],
      [\<lparr>fatal = False, message = ''m2'', file_name = ''t.cpp'', line = 21\<rparr>,
       \<lparr>fatal = True, message = ''m3'', file_name = ''t.cpp'', line = 22\<rparr>]]"

definition report_durations :: "nat list" where
  "report_durations = [0, 1500, 12]"




text \<open>The sorted input \<open>0, 1, \<dots>, n - 1\<close>, used to show that the size bound of heap sort is sharp.\<close>

definition ascending :: "nat \<Rightarrow> int list" where
  "ascending n = map int [0..<n]"

section \<open>The min-heap: correctness of sifting, insertion and extraction\<close>

lemma swap_nth:
  "p < length a \<Longrightarrow> k < length a \<Longrightarrow> p \<noteq> k \<Longrightarrow>
   (a[p := a ! k, k := a ! p]) ! i = (if i = k then a ! p else if i = p then a ! k else a ! i)"
  by (simp add: nth_list_update)

lemma take_swap_mset:
  assumes "p < n" "k < n" "n \<le> length a"
  shows "mset (take n (a[p := a ! k, k := a ! p])) = mset (take n a)"
proof -
  have "take n (a[p := a ! k, k := a ! p]) = (take n a)[p := take n a ! k, k := take n a ! p]"
    using assms by (simp add: take_update_swap)
  moreover have "mset ((take n a)[p := take n a ! k, k := take n a ! p]) = mset (take n a)"
    by (rule mset_swap) (use assms in simp_all)
  ultimately show ?thesis by (simp only:)
qed

lemma sift_up_correct:
  "k < n \<Longrightarrow> n \<le> length a \<Longrightarrow> up_except n a k \<Longrightarrow>
   \<exists>b. heap_sift_up a k = Some b \<and> is_heap n b \<and> length b = length a \<and>
       mset (take n b) = mset (take n a)"
proof (induction a k rule: heap_sift_up.induct)
  case (1 a k)
  show ?case
  proof (cases "0 < k")
    case False
    then have "heap_sift_up a k = Some a" by (subst heap_sift_up.simps) simp
    moreover have "is_heap n a"
      using "1.prems"(3) False by (auto simp: is_heap_def up_except_def)
    ultimately show ?thesis by simp
  next
    case True
    define p where "p = (k - 1) div 2"
    have pk: "p < k" unfolding p_def using True by arith
    have pS: "(k - Suc 0) div 2 = p" by (simp add: p_def)
    have kl: "k < length a" using "1.prems" by simp
    show ?thesis
    proof (cases "a ! p \<le> a ! k")
      case le: True
      have "heap_sift_up a k = Some a"
        using True kl le by (subst heap_sift_up.simps) (simp add: p_def Let_def)
      moreover have "is_heap n a"
        unfolding is_heap_def
      proof (intro allI impI)
        fix i assume "0 < i \<and> i < n"
        then show "a ! ((i - 1) div 2) \<le> a ! i"
          using "1.prems"(3) le by (cases "i = k") (auto simp: up_except_def p_def)
      qed
      ultimately show ?thesis by simp
    next
      case gt: False
      define a' where "a' = a[p := a ! k, k := a ! p]"
      have step: "heap_sift_up a k = heap_sift_up a' p"
        using True kl gt by (subst heap_sift_up.simps) (simp add: p_def Let_def a'_def)
      have nth': "\<And>i. a' ! i = (if i = k then a ! p else if i = p then a ! k else a ! i)"
        unfolding a'_def using swap_nth [of p a k] pk kl by simp
      have ue: "up_except n a' p"
        unfolding up_except_def
      proof (intro conjI allI impI)
        fix i assume h: "0 < i \<and> i < n \<and> i \<noteq> p"
        show "a' ! ((i - 1) div 2) \<le> a' ! i"
        proof (cases "i = k")
          case True
          then show ?thesis using gt pk by (simp add: nth' pS)
        next
          case ik: False
          have lt: "(i - 1) div 2 < i" using h by arith
          show ?thesis
          proof (cases "(i - 1) div 2 = k")
            case True
            then have "a ! ((k - 1) div 2) \<le> a ! i"
              using "1.prems"(3) h \<open>0 < k\<close> by (auto simp: up_except_def)
            then show ?thesis using True ik h pk by (simp add: nth' p_def)
          next
            case nk: False
            have base: "a ! ((i - 1) div 2) \<le> a ! i"
              using "1.prems"(3) h ik by (auto simp: up_except_def)
            show ?thesis
            proof (cases "(i - 1) div 2 = p")
              case True
              then show ?thesis using base gt ik h nk by (simp add: nth')
            next
              case False
              then show ?thesis using base ik h nk by (simp add: nth')
            qed
          qed
        qed
      next
        fix i assume h: "0 < i \<and> i < n \<and> (i - 1) div 2 = p \<and> 0 < p"
        have pp: "(p - 1) div 2 < p" using h by arith
        have a1: "a ! ((p - 1) div 2) \<le> a ! p"
          using "1.prems"(1,3) h pk by (auto simp: up_except_def)
        have ip: "i \<noteq> p" using h by arith
        show "a' ! ((p - 1) div 2) \<le> a' ! i"
        proof (cases "i = k")
          case True
          then show ?thesis using a1 pp pk by (simp add: nth')
        next
          case False
          then have "a ! p \<le> a ! i"
            using "1.prems"(3) h by (auto simp: up_except_def)
          then show ?thesis using a1 pp pk False ip by (simp add: nth')
        qed
      qed
      have "p < n" "n \<le> length a'" using pk "1.prems" by (simp_all add: a'_def)
      have "\<exists>b. heap_sift_up a' p = Some b \<and> is_heap n b \<and> length b = length a' \<and>
              mset (take n b) = mset (take n a')"
        using "1.IH" [OF True p_def] kl gt \<open>p < n\<close> \<open>n \<le> length a'\<close> ue
        unfolding a'_def by simp
      moreover have "mset (take n a') = mset (take n a)"
        unfolding a'_def using take_swap_mset [of p n k a] pk "1.prems" by simp
      moreover have "length a' = length a" by (simp add: a'_def)
      ultimately show ?thesis using step by auto
    qed
  qed
qed



text \<open>
  From index \<open>2 ^ 30 - 1\<close> on, the right child index does not fit an \<^verbatim>\<open>int\<close>.
\<close>

lemma sift_down_index_overflow:
  "1073741823 \<le> idx \<Longrightarrow> heap_sift_down heap sz idx = None"
  by (subst heap_sift_down.simps) (simp add: Let_def INT_MAX_def)


lemma empty_queue_ok: "heap_ok empty_queue" "contents empty_queue = {#}" "q_size empty_queue = 0"
  by (simp_all add: heap_ok_def empty_queue_def is_heap_def contents_def)

lemma grow_correct:
  assumes "heap_ok h" "grow alloc_ok junk h = Some h1"
  shows "q_size h1 = q_size h \<and> q_size h < length (q_heap h1) \<and>
         length (q_heap h1) = q_capacity h1 \<and>
         take (q_size h) (q_heap h1) = take (q_size h) (q_heap h)"
  using assms
  by (auto simp: grow_def heap_ok_def malloc_def realloc_def
      split: if_splits option.splits)

lemma grow_succeeds:
  assumes "q_capacity h = 0 \<longrightarrow> alloc_ok 10"
    and "q_capacity h \<noteq> 0 \<and> q_capacity h \<le> q_size h \<longrightarrow>
           q_capacity h * 2 \<le> INT_MAX \<and> alloc_ok (q_capacity h * 2)"
  shows "\<exists>h1. grow alloc_ok junk h = Some h1 \<and>
           q_capacity h1 = (if q_capacity h = 0 then 10
                            else if q_capacity h \<le> q_size h then q_capacity h * 2
                            else q_capacity h)"
  using assms by (auto simp: grow_def malloc_def realloc_def)

lemma insert_correct:
  assumes "heap_ok h" "grow alloc_ok junk h = Some h1" "q_size h < INT_MAX"
  shows "\<exists>h'. min_heap_insert alloc_ok junk h v = Some h' \<and> heap_ok h' \<and>
           contents h' = add_mset v (contents h) \<and> q_size h' = q_size h + 1 \<and>
           q_capacity h' = q_capacity h1"
proof -
  define n where "n = q_size h"
  have g: "q_size h1 = n" "n < length (q_heap h1)" "length (q_heap h1) = q_capacity h1"
      "take n (q_heap h1) = take n (q_heap h)"
    using grow_correct [OF assms(1,2)] by (simp_all add: n_def)
  have nth1: "\<And>i. i < n \<Longrightarrow> q_heap h1 ! i = q_heap h ! i"
    using g(4) by (metis nth_take)
  define a where "a = (q_heap h1)[n := v]"
  have ntha: "\<And>i. i < n \<Longrightarrow> a ! i = q_heap h ! i"
    using nth1 by (simp add: a_def)
  have la: "length a = length (q_heap h1)" by (simp add: a_def)
  have hp: "is_heap n (q_heap h)" using assms(1) by (simp add: heap_ok_def n_def)
  have ue: "up_except (Suc n) a n"
    unfolding up_except_def
  proof (intro conjI allI impI)
    fix i assume h: "0 < i \<and> i < Suc n \<and> i \<noteq> n"
    then have "i < n" "(i - 1) div 2 < n" by arith+
    then show "a ! ((i - 1) div 2) \<le> a ! i"
      using hp h by (simp add: ntha is_heap_def)
  next
    fix i assume h: "0 < i \<and> i < Suc n \<and> (i - 1) div 2 = n \<and> 0 < n"
    then have False by arith
    then show "a ! ((n - 1) div 2) \<le> a ! i" ..
  qed
  obtain b where b: "heap_sift_up a n = Some b" "is_heap (Suc n) b" "length b = length a"
      "mset (take (Suc n) b) = mset (take (Suc n) a)"
    using sift_up_correct [of n "Suc n" a] ue g(2) la by auto
  have "take (Suc n) a = take n (q_heap h) @ [v]"
    using g(2,4) by (simp add: a_def take_Suc_conv_app_nth)
  then have ms: "mset (take (Suc n) b) = add_mset v (mset (take n (q_heap h)))"
    using b(4) by simp
  have res: "min_heap_insert alloc_ok junk h v = Some (h1\<lparr>q_heap := b, q_size := n + 1\<rparr>)"
    using g(1,2) b(1) assms(3) unfolding min_heap_insert_def assms(2)
    by (simp add: a_def n_def)
  show ?thesis
    using res b ms g la by (simp add: heap_ok_def contents_def n_def)
qed



text \<open>
  Doubling stays within \<open>INT_MAX\<close> while the capacity is below \<open>10 * 2 ^ 27 = 1342177280\<close>,
  and a queue of that size built from the empty queue is full.
\<close>

lemma capacity_doubling:
  assumes "c = 10 * 2 ^ k" "c < (1342177280::nat)"
  shows "c * 2 = 10 * 2 ^ Suc k" "c * 2 \<le> INT_MAX"
proof -
  show d: "c * 2 = 10 * 2 ^ Suc k" using assms(1) by simp
  have lt: "(2::nat) ^ k < 2 ^ 27" using assms by simp
  have "\<not> 27 \<le> k"
  proof
    assume "27 \<le> k"
    then have "(2::nat) ^ 27 \<le> 2 ^ k" by (intro power_increasing) simp_all
    then show False using lt by simp
  qed
  then have "Suc k \<le> 27" by simp
  then have "(2::nat) ^ Suc k \<le> 2 ^ 27" by (intro power_increasing) simp_all
  then show "c * 2 \<le> INT_MAX" unfolding d by (simp add: INT_MAX_def)
qed


lemma insert_step:
  assumes "heap_ok h" "capacity_ok h" "q_size h < 1342177280"
    and "alloc_ok 10" "alloc_ok (2 * q_size h)"
  shows "\<exists>h'. min_heap_insert alloc_ok junk h v = Some h' \<and> heap_ok h' \<and> capacity_ok h' \<and>
           contents h' = add_mset v (contents h) \<and> q_size h' = q_size h + 1"
proof -
  have le: "q_size h \<le> q_capacity h" using assms(1) by (simp add: heap_ok_def)
  have dbl: "q_capacity h * 2 \<le> INT_MAX \<and> alloc_ok (q_capacity h * 2) \<and>
      (\<exists>k. q_capacity h * 2 = 10 * 2 ^ k)"
    if nz: "q_capacity h \<noteq> 0" and full: "q_capacity h \<le> q_size h"
  proof -
    have eq: "q_capacity h = q_size h" using full le by simp
    obtain k where k: "q_capacity h = 10 * 2 ^ k"
      using assms(2) nz by (auto simp: capacity_ok_def)
    have "q_capacity h < 1342177280" using eq assms(3) by simp
    note d = capacity_doubling [OF k this]
    have "\<exists>ka. q_capacity h * 2 = 10 * 2 ^ ka" using d(1) by blast
    moreover have "alloc_ok (q_capacity h * 2)" using assms(5) eq by (simp add: mult.commute)
    ultimately show ?thesis using d(2) by blast
  qed
  obtain h1 where h1: "grow alloc_ok junk h = Some h1"
      "q_capacity h1 = (if q_capacity h = 0 then 10
                        else if q_capacity h \<le> q_size h then q_capacity h * 2
                        else q_capacity h)"
    using grow_succeeds [of h alloc_ok junk] assms(4) dbl by blast
  have "q_size h < INT_MAX" using assms(3) by (simp add: INT_MAX_def)
  from insert_correct [OF assms(1) h1(1) this, of v]
  obtain h' where h': "min_heap_insert alloc_ok junk h v = Some h'" "heap_ok h'"
      "contents h' = add_mset v (contents h)" "q_size h' = q_size h + 1"
      "q_capacity h' = q_capacity h1"
    by blast
  have "capacity_ok h'"
  proof (cases "q_capacity h = 0")
    case True
    then have "q_capacity h' = 10 * 2 ^ 0" using h'(5) h1(2) by simp
    then show ?thesis unfolding capacity_ok_def by (metis le_refl mult.right_neutral power_0)
  next
    case nz: False
    show ?thesis
    proof (cases "q_capacity h \<le> q_size h")
      case True
      then obtain k where "q_capacity h * 2 = 10 * 2 ^ k" using dbl nz by blast
      moreover have "q_capacity h' = q_capacity h * 2" using h'(5) h1(2) nz True by simp
      moreover have "q_capacity h * 2 < 2 * q_size h'" using True le h'(4) by simp
      ultimately show ?thesis unfolding capacity_ok_def by auto
    next
      case False
      then have same: "q_capacity h' = q_capacity h" using h'(5) h1(2) nz by simp
      obtain k where "q_capacity h = 10 * 2 ^ k"
          "q_capacity h \<le> 10 \<or> q_capacity h < 2 * q_size h"
        using assms(2) nz by (auto simp: capacity_ok_def)
      then show ?thesis unfolding capacity_ok_def using same h'(4) by auto
    qed
  qed
  then show ?thesis using h' by blast
qed




lemma empty_queue_capacity_ok: "capacity_ok empty_queue"
  by (simp add: capacity_ok_def empty_queue_def)

subsection \<open>The size bound is sharp\<close>

text \<open>
  Inserting a value that is at least as large as every stored one moves nothing, so
  inserting \<open>0, 1, \<dots>, n - 1\<close> in this order leaves the buffer holding exactly these values
  in this order.
\<close>

lemma ascending_Suc: "ascending (Suc n) = ascending n @ [int n]"
  by (simp add: ascending_def)

lemma length_ascending: "length (ascending n) = n"
  by (simp add: ascending_def)

lemma nth_ascending: "i < n \<Longrightarrow> ascending n ! i = int i"
  by (simp add: ascending_def)

lemma sift_up_no_swap:
  assumes "n < length a" "0 < n \<longrightarrow> a ! ((n - 1) div 2) \<le> a ! n"
  shows "heap_sift_up a n = Some a"
  using assms by (subst heap_sift_up.simps) (simp add: Let_def)

lemma insert_largest:
  assumes "heap_ok h" "capacity_ok h" "q_size h < 1342177280"
    and "take (q_size h) (q_heap h) = ascending (q_size h)"
  shows "\<exists>h'. min_heap_insert (\<lambda>n. True) junk h (int (q_size h)) = Some h' \<and> heap_ok h' \<and>
           capacity_ok h' \<and> q_size h' = Suc (q_size h) \<and>
           take (q_size h') (q_heap h') = ascending (q_size h')"
proof -
  define n where "n = q_size h"
  obtain h' where h': "min_heap_insert (\<lambda>n. True) junk h (int n) = Some h'" "heap_ok h'"
      "capacity_ok h'" "q_size h' = q_size h + 1"
    using insert_step [OF assms(1-3), of "\<lambda>n. True" junk "int n"] by auto
  obtain h1 where h1: "grow (\<lambda>n. True) junk h = Some h1"
    using h'(1) by (auto simp: min_heap_insert_def split: option.splits)
  have g: "q_size h1 = n" "n < length (q_heap h1)"
      "take n (q_heap h1) = take n (q_heap h)"
    using grow_correct [OF assms(1) h1] by (simp_all add: n_def)
  define a where "a = (q_heap h1)[n := int n]"
  have an: "a ! n = int n" using g(2) by (simp add: a_def)
  have ai: "\<And>i. i < n \<Longrightarrow> a ! i = int i"
  proof -
    fix i assume i: "i < n"
    have "a ! i = take n (q_heap h1) ! i" using i by (simp add: a_def)
    also have "\<dots> = ascending n ! i" using g(3) assms(4) by (simp add: n_def)
    also have "\<dots> = int i" using i by (rule nth_ascending)
    finally show "a ! i = int i" .
  qed
  have "0 < n \<longrightarrow> a ! ((n - 1) div 2) \<le> a ! n"
  proof
    assume "0 < n"
    then have p: "(n - 1) div 2 < n" by arith
    then show "a ! ((n - 1) div 2) \<le> a ! n" using ai [OF p] an by simp
  qed
  then have su: "heap_sift_up a n = Some a"
    using g(2) by (intro sift_up_no_swap) (simp_all add: a_def)
  have "q_size h < INT_MAX" using assms(3) by (simp add: INT_MAX_def)
  then have "min_heap_insert (\<lambda>n. True) junk h (int n) =
      Some (h1\<lparr>q_heap := a, q_size := n + 1\<rparr>)"
    using g(1,2) su unfolding min_heap_insert_def h1 by (simp add: a_def n_def)
  then have eq: "h' = h1\<lparr>q_heap := a, q_size := n + 1\<rparr>" using h'(1) by simp
  have "take (Suc n) a = ascending (Suc n)"
  proof (rule nth_equalityI)
    show "length (take (Suc n) a) = length (ascending (Suc n))"
      using g(2) by (simp add: a_def length_ascending)
  next
    fix i assume "i < length (take (Suc n) a)"
    then have i: "i < Suc n" by simp
    then have "a ! i = int i" using ai an by (cases "i = n") simp_all
    then show "take (Suc n) a ! i = ascending (Suc n) ! i"
      using i by (simp add: nth_ascending)
  qed
  then have "take (q_size h') (q_heap h') = ascending (q_size h')" by (simp add: eq)
  then show ?thesis using h' by (auto simp: n_def)
qed

lemma insert_all_ascending:
  "heap_ok h \<Longrightarrow> capacity_ok h \<Longrightarrow> q_size h = m \<Longrightarrow> m + k \<le> 1342177280 \<Longrightarrow>
   take m (q_heap h) = ascending m \<Longrightarrow>
   \<exists>h'. insert_all (\<lambda>n. True) junk h (map int [m..<m + k]) = Some h' \<and> heap_ok h' \<and>
     q_size h' = m + k \<and> take (m + k) (q_heap h') = ascending (m + k)"
proof (induction k arbitrary: h m)
  case 0
  then show ?case by simp
next
  case (Suc k)
  have "q_size h < 1342177280" using Suc.prems by simp
  from insert_largest [OF Suc.prems(1,2) this, of junk] Suc.prems(3,5)
  obtain h1 where h1: "min_heap_insert (\<lambda>n. True) junk h (int m) = Some h1" "heap_ok h1"
      "capacity_ok h1" "q_size h1 = Suc m" "take (Suc m) (q_heap h1) = ascending (Suc m)"
    by auto
  have "Suc m + k \<le> 1342177280" using Suc.prems(4) by simp
  from Suc.IH [OF h1(2,3,4) this h1(5)]
  obtain h' where h': "insert_all (\<lambda>n. True) junk h1 (map int [Suc m..<Suc m + k]) = Some h'"
      "heap_ok h'" "q_size h' = Suc m + k" "take (Suc m + k) (q_heap h') = ascending (Suc m + k)"
    by blast
  have "[m..<m + Suc k] = m # [Suc m..<Suc m + k]" by (simp add: upt_conv_Cons)
  then show ?case using h1(1) h' by simp
qed

text \<open>
  With \<open>2 ^ 30\<close> live cells holding their own indices, a value larger than all of them
  placed at the root sinks along the leftmost path \<open>0, 1, 3, 7, \<dots>, 2 ^ 30 - 1\<close>; at the last
  of these cells \<open>idx * 2 + 2\<close> is \<open>2 ^ 31\<close>, beyond \<^verbatim>\<open>int\<close>.
\<close>

lemma sift_down_left_spine:
  "j + d = 30 \<Longrightarrow> 1073741824 \<le> length c \<Longrightarrow> c ! (2 ^ j - 1) = 1073741824 \<Longrightarrow>
   (\<forall>i. 2 ^ j - 1 < i \<and> i < 1073741824 \<longrightarrow> c ! i = int i) \<Longrightarrow>
   heap_sift_down c 1073741824 (2 ^ j - 1) = None"
proof (induction d arbitrary: j c)
  case 0
  then have "j = 30" by simp
  then have "(1073741823::nat) \<le> 2 ^ j - 1" by simp
  then show ?case by (rule sift_down_index_overflow)
next
  case (Suc d)
  define n :: nat where "n = 1073741824"
  define k :: nat where "k = 2 ^ j - 1"
  define l where "l = k * 2 + 1"
  define r where "r = k * 2 + 2"
  define s1 where "s1 = (if l < n \<and> c ! l < c ! k then l else k)"
  define s where "s = (if r < n \<and> c ! r < c ! s1 then r else s1)"
  have j: "Suc j \<le> 30" using Suc.prems(1) by simp
  have "(2::nat) ^ Suc j \<le> 2 ^ 30" using j by (intro power_increasing) simp_all
  then have p: "(2::nat) ^ Suc j \<le> n" by (simp add: n_def)
  have p1: "(1::nat) \<le> 2 ^ j" by simp
  define q :: nat where "q = 2 ^ j"
  have q1: "1 \<le> q" by (simp add: q_def)
  have "(q - 1) * 2 + 1 = 2 * q - 1" "(q - 1) * 2 + 2 = 2 * q"
    using q1 by arith+
  then have l: "l = 2 ^ Suc j - 1" and r: "r = 2 ^ Suc j"
    by (simp_all add: l_def r_def k_def q_def)
  have pq: "2 * q \<le> n" using p by (simp add: q_def)
  have "q - 1 < 2 * q - 1" "2 * q - 1 < 2 * q" "2 * q - 1 < n"
    using q1 pq by arith+
  then have kl: "k < l" "l < r" "l < n" "r \<le> n"
    using pq by (simp_all add: l r k_def q_def)
  have ck: "c ! k = int n" using Suc.prems(3) by (simp add: k_def n_def)
  have ci: "\<And>i. k < i \<Longrightarrow> i < n \<Longrightarrow> c ! i = int i"
    using Suc.prems(4) by (simp add: k_def n_def)
  have cl: "c ! l = int l" using ci kl by simp
  have s1: "s1 = l" using kl cl ck by (simp add: s1_def)
  have "\<not> (r < n \<and> c ! r < c ! l)"
  proof
    assume a: "r < n \<and> c ! r < c ! l"
    then have "c ! r = int r" using ci kl by simp
    then show False using a cl kl by simp
  qed
  then have s: "s = l" unfolding s_def s1 by auto
  have inbF: "(INT_MAX < r) = False" "(l < n \<and> length c \<le> l) = False"
      "(r < n \<and> length c \<le> r) = False"
    using kl Suc.prems(2) by (auto simp: INT_MAX_def n_def)
  have unf: "heap_sift_down c n k =
      (if s = k then Some c else heap_sift_down (c[s := c ! k, k := c ! s]) n s)"
    by (subst heap_sift_down.simps,
        unfold Let_def l_def [symmetric] r_def [symmetric] s1_def [symmetric] s_def [symmetric])
      (simp only: inbF if_False)
  define c' where "c' = c[l := c ! k, k := c ! l]"
  have step: "heap_sift_down c n k = heap_sift_down c' n l"
    using unf kl by (simp add: s c'_def)
  have len: "1073741824 \<le> length c'" using Suc.prems(2) by (simp add: c'_def)
  have ln: "l < length c" using kl Suc.prems(2) by (simp add: n_def)
  have "c' ! l = 1073741824"
    using kl ln ck by (simp add: c'_def n_def)
  then have top: "c' ! (2 ^ Suc j - 1) = 1073741824"
    unfolding l .
  have rest: "\<forall>i. 2 ^ Suc j - 1 < i \<and> i < 1073741824 \<longrightarrow> c' ! i = int i"
  proof (intro allI impI)
    fix i :: nat assume "2 ^ Suc j - 1 < i \<and> i < 1073741824"
    then have i: "l < i" "i < n" by (simp_all add: l n_def)
    then have "c' ! i = c ! i" using kl by (simp add: c'_def)
    then show "c' ! i = int i" using ci i kl by simp
  qed
  have "Suc j + d = 30" using Suc.prems(1) by simp
  from Suc.IH [OF this len top rest]
  have "heap_sift_down c' n l = None" by (simp add: l n_def)
  then show ?case using step by (simp add: k_def n_def)
qed

lemma delete_min_ascending_overflow:
  assumes "q_size h = 1073741825" "take 1073741825 (q_heap h) = ascending 1073741825"
  shows "min_heap_delete_min h = None"
proof -
  define a where "a = q_heap h"
  define b where "b = a[0 := a ! 1073741824]"
  have "length (take 1073741825 a) = 1073741825"
    using assms(2) by (simp only: a_def length_ascending)
  then have len: "1073741825 \<le> length a" by simp
  have ai: "\<And>i. i < 1073741825 \<Longrightarrow> a ! i = int i"
  proof -
    fix i :: nat assume i: "i < 1073741825"
    have "a ! i = take 1073741825 a ! i" using i by simp
    also have "\<dots> = ascending 1073741825 ! i" using assms(2) by (simp only: a_def)
    also have "\<dots> = int i" using i by (rule nth_ascending)
    finally show "a ! i = int i" .
  qed
  have pos: "0 < length a" using len by arith
  have b0: "b ! (2 ^ 0 - 1) = 1073741824"
    using pos ai [of 1073741824] by (simp add: b_def)
  have bi: "\<forall>i. 2 ^ 0 - 1 < i \<and> i < 1073741824 \<longrightarrow> b ! i = int i"
    using ai by (simp add: b_def)
  have bl: "1073741824 \<le> length b" using len by (simp add: b_def)
  have "heap_sift_down b 1073741824 (2 ^ 0 - 1) = None"
    by (rule sift_down_left_spine [of 0 30, OF _ bl b0 bi]) simp
  then have sd: "heap_sift_down b 1073741824 0 = None" by simp
  show ?thesis
    using sd len assms(1) unfolding min_heap_delete_min_def
    by (simp add: Let_def a_def b_def)
qed

text \<open>
  So the sorted input of \<open>2 ^ 30 + 1\<close> integers is inserted without failure, and the first
  extraction overflows the child index: the bound \<open>2 ^ 30\<close> of \<open>delete_n_correct\<close> cannot be
  raised.
\<close>

lemma ascending_index_overflow:
  "\<exists>h. insert_all (\<lambda>n. True) (\<lambda>i. 0) empty_queue (ascending 1073741825) = Some h \<and>
       delete_n 1073741825 h = None"
proof -
  have e: "heap_ok empty_queue" "capacity_ok empty_queue" "q_size empty_queue = 0"
    "take 0 (q_heap empty_queue) = ascending 0"
    using empty_queue_ok empty_queue_capacity_ok by (simp_all add: empty_queue_def ascending_def)
  have "(0::nat) + 1073741825 \<le> 1342177280" by simp
  from insert_all_ascending [OF e(1,2,3) this e(4), of "\<lambda>i. 0"]
  obtain h where h: "insert_all (\<lambda>n. True) (\<lambda>i. 0) empty_queue (ascending 1073741825) = Some h"
      "q_size h = 1073741825" "take 1073741825 (q_heap h) = ascending 1073741825"
    unfolding ascending_def by (auto simp only: add_0)
  have dm: "min_heap_delete_min h = None"
    using h(2,3) by (rule delete_min_ascending_overflow)
  have "delete_n (Suc 1073741824) h = None"
    by (simp only: delete_n.simps dm option.case)
  moreover have "Suc 1073741824 = 1073741825" by simp
  ultimately have "delete_n 1073741825 h = None" by (simp only:)
  then show ?thesis using h(1) by blast
qed

section \<open>The test runner: assertions, the per-test boundary and the exit status\<close>

lemma AddFailure_no_context:
  "current_context st = None \<Longrightarrow> AddFailure fl ln msg ftl st = (None, st)"
  by (simp add: AddFailure_def)

lemma AddFailure_fatal:
  "current_context st = Some ctx \<Longrightarrow>
   AddFailure fl ln msg True st =
     (Some AssertionException,
      st\<lparr>current_context := Some (ctx\<lparr>failures := failures ctx @
         [\<lparr>fatal = True, message = msg, file_name = fl, line = ln\<rparr>]\<rparr>)\<rparr>)"
  by (simp add: AddFailure_def)




lemma ASSERT_NE_fails:
  "a = b \<Longrightarrow> ASSERT_NE shw a b a_expr b_expr fl ln =
     AddFailure fl ln (values_message ''inequality'' a_expr (shw a) b_expr (shw b)) True"
  by (rule ext) (simp add: ASSERT_NE_def ExpectNotEqual_def)

lemma ASSERT_TRUE_fails:
  "\<not> c \<Longrightarrow> ASSERT_TRUE c expr fl ln = AddFailure fl ln (''Expected: '' @ expr @ '' is true'') True"
  by (rule ext) (simp add: ASSERT_TRUE_def ExpectTrue_def)

lemma ASSERT_FALSE_fails:
  "c \<Longrightarrow> ASSERT_FALSE c expr fl ln = AddFailure fl ln (''Expected: '' @ expr @ '' is true'') True"
  by (rule ext) (simp add: ASSERT_FALSE_def ExpectTrue_def)

text \<open>
  An exception other than the abort signal reaches one of the last two handlers. The
  handler records the failure through \<open>AddFailure\<close> with \<open>fatal = true\<close>, which throws
  \<^verbatim>\<open>AssertionException\<close> from inside the handler; so the loop is left.
\<close>

lemma run_test_func_std_exception:
  "f st = (Some (StdException what), st') \<Longrightarrow> current_context st' = Some ctx \<Longrightarrow>
   run_test_func f st =
     (Some AssertionException,
      st'\<lparr>current_context := Some (ctx\<lparr>failures := failures ctx @
         [\<lparr>fatal = True, message = ''Unhandled exception: '' @ what,
           file_name = ''unknown'', line = 0\<rparr>]\<rparr>)\<rparr>)"
  by (simp add: run_test_func_def AddFailure_fatal)

lemma run_test_func_non_std_exception:
  "f st = (Some NonStdException, st') \<Longrightarrow> current_context st' = Some ctx \<Longrightarrow>
   run_test_func f st =
     (Some AssertionException,
      st'\<lparr>current_context := Some (ctx\<lparr>failures := failures ctx @
         [\<lparr>fatal = True, message = ''Unhandled non-standard exception'',
           file_name = ''unknown'', line = 0\<rparr>]\<rparr>)\<rparr>)"
  by (simp add: run_test_func_def AddFailure_fatal)

lemma run_tests_unexpected_escapes:
  assumes "i < length tests"
    and "func (tests ! i) (st\<lparr>current_context := Some \<lparr>failures = []\<rparr>\<rparr>) = (Some ex, st')"
    and "ex \<noteq> AssertionException"
    and "current_context st' = Some ctx"
  shows "run_tests e tests i rs st = Inl AssertionException"
proof -
  obtain st2 where "run_test_func (func (tests ! i))
      (st\<lparr>current_context := Some \<lparr>failures = []\<rparr>\<rparr>) = (Some AssertionException, st2)"
    using assms(2-4) by (cases ex) (simp_all add: run_test_func_def AddFailure_fatal)
  then show ?thesis
    using assms(1) by (subst run_tests.simps) simp
qed

text \<open>
  When every body lets out the abort signal only, the loop runs to its end and \<open>failed\<close>
  counts the tests with a non-empty failure list; when moreover no directory creation
  fails, \<open>RunAllTests\<close> returns \<open>0\<close> if all lists are empty and \<open>1\<close> otherwise.
\<close>

lemma run_test_func_only_aborts:
  "only_aborts f \<Longrightarrow> \<exists>st'. run_test_func f st = (None, st')"
proof -
  assume c: "only_aborts f"
  obtain r st' where r: "f st = (r, st')" by (cases "f st")
  show ?thesis
  proof (cases r)
    case None
    then show ?thesis using r by (simp add: run_test_func_def)
  next
    case (Some ex)
    then have "ex = AssertionException" using c r by (auto simp: only_aborts_def)
    then show ?thesis using r Some by (simp add: run_test_func_def)
  qed
qed

lemma run_tests_only_aborts:
  "\<forall>t \<in> set tests. only_aborts (func t) \<Longrightarrow>
     i \<le> length tests \<Longrightarrow> length (all_failures rs) = length tests \<Longrightarrow>
     failed rs = int (length (filter (\<lambda>f. f \<noteq> []) (take i (all_failures rs)))) \<Longrightarrow>
     \<exists>rs' st'. run_tests e tests i rs st = Inr (rs', st') \<and>
       length (all_failures rs') = length tests \<and>
       length (durations_ms rs') = length (durations_ms rs) \<and>
       failed rs' = int (length (filter (\<lambda>f. f \<noteq> []) (all_failures rs')))"
proof (induction e tests i rs st rule: run_tests.induct)
  case (1 e tests i rs st)
  show ?case
  proof (cases "i < length tests")
    case False
    then have "i = length tests" using "1.prems" by simp
    then show ?thesis
      using "1.prems" by (subst run_tests.simps) simp
  next
    case True
    let ?st0 = "st\<lparr>current_context := Some \<lparr>failures = []\<rparr>\<rparr>"
    have "only_aborts (func (tests ! i))" using True "1.prems"(1) by simp
    then obtain st2 where st2: "run_test_func (func (tests ! i)) ?st0 = (None, st2)"
      using run_test_func_only_aborts by blast
    define rs2 where "rs2 =
       \<lparr>failed = (if ctx_failures st2 = [] then failed rs else failed rs + 1),
        all_failures = (all_failures rs)[i := ctx_failures st2],
        durations_ms = (durations_ms rs)[i := elapsed_ms e i]\<rparr>"
    have step: "run_tests e tests i rs st = run_tests e tests (i + 1) rs2 (st2\<lparr>current_context := None\<rparr>)"
      using True st2 by (subst run_tests.simps) (simp add: rs2_def)
    have il: "i < length (all_failures rs)" using True "1.prems"(3) by simp
    have tk: "take (i + 1) (all_failures rs2) = take i (all_failures rs) @ [ctx_failures st2]"
      using il by (simp add: rs2_def take_Suc_conv_app_nth)
    have inv: "failed rs2 = int (length (filter (\<lambda>f. f \<noteq> []) (take (i + 1) (all_failures rs2))))"
      unfolding tk using "1.prems"(4) by (simp add: rs2_def)
    have len: "length (all_failures rs2) = length tests" "i + 1 \<le> length tests"
      using True "1.prems"(3) by (simp_all add: rs2_def)
    have "\<exists>rs' st'. run_tests e tests (i + 1) rs2 (st2\<lparr>current_context := None\<rparr>) = Inr (rs', st') \<and>
       length (all_failures rs') = length tests \<and>
       length (durations_ms rs') = length (durations_ms rs2) \<and>
       failed rs' = int (length (filter (\<lambda>f. f \<noteq> []) (all_failures rs')))"
      using "1.IH" [OF True st2 [symmetric] refl "1.prems"(1) len(2) len(1) [unfolded rs2_def]
          inv [unfolded rs2_def]] unfolding rs2_def by simp
    then show ?thesis using step by (auto simp: rs2_def)
  qed
qed

lemma WriteXmlReport_no_throw:
  "\<forall>d. create_directories_error e d = None \<Longrightarrow>
   \<exists>events. WriteXmlReport e tests fails durations st = Inr events"
  by (simp add: WriteXmlReport_def Let_def)

lemma RunAllTests_status:
  assumes "\<forall>t \<in> set tests. only_aborts (func t)"
    and "\<forall>d. create_directories_error e d = None"
  shows "\<exists>rs st' events.
     run_tests e tests 0
       \<lparr>failed = 0, all_failures = replicate (length tests) [],
        durations_ms = replicate (length tests) 0\<rparr> st = Inr (rs, st') \<and>
     length (all_failures rs) = length tests \<and>
     RunAllTests e tests st =
       Inr (if list_all (\<lambda>f. f = []) (all_failures rs) then 0 else 1, events, st')"
proof -
  let ?rs0 = "\<lparr>failed = 0, all_failures = replicate (length tests) [],
        durations_ms = replicate (length tests) 0\<rparr>"
  obtain rs st' where r: "run_tests e tests 0 ?rs0 st = Inr (rs, st')"
      "length (all_failures rs) = length tests"
      "failed rs = int (length (filter (\<lambda>f. f \<noteq> []) (all_failures rs)))"
    using run_tests_only_aborts [OF assms(1), of 0 ?rs0 e st] by auto
  obtain events where w: "WriteXmlReport e tests (all_failures rs) (durations_ms rs) st' = Inr events"
    using WriteXmlReport_no_throw [OF assms(2)] by blast
  have "(failed rs = 0) = list_all (\<lambda>f. f = []) (all_failures rs)"
    using r(3) by (simp add: list_all_iff filter_empty_conv)
  then show ?thesis
    using r w by (simp add: RunAllTests_def)
qed

lemma InitGoogleTest_args_flags:
  "InitGoogleTest_args args st =
     (case filter (starts_with gtest_output_prefix) args of
        [] \<Rightarrow> st
      | f # fs \<Rightarrow> st\<lparr>g_output_path := drop (length gtest_output_prefix) (last (f # fs))\<rparr>)"
proof (induction args arbitrary: st)
  case Nil
  then show ?case by simp
next
  case (Cons a args)
  show ?case
  proof (cases "starts_with gtest_output_prefix a")
    case True
    then show ?thesis
      by (simp add: Cons.IH split: list.splits)
  next
    case False
    then show ?thesis by (simp add: Cons.IH)
  qed
qed

section \<open>The report: grouping, counts and number formats\<close>

text \<open>
  The association list stays strictly ascending in its keys, and pushing an index behaves
  as the update of a finite map. Hence the groups built from the registered tests: the keys
  are the suite names in ascending order, and each suite holds the indices of its tests in
  registration order.
\<close>

lemma suite_map_push_keys:
  "sorted_wrt (<) (map fst m) \<Longrightarrow>
   sorted_wrt (<) (map fst (suite_map_push m key i)) \<and>
   set (map fst (suite_map_push m key i)) = insert key (set (map fst m))"
proof (induction m)
  case Nil
  then show ?case by simp
next
  case (Cons kv m)
  obtain k v where kv: "kv = (k, v)" by (cases kv)
  have sm: "sorted_wrt (<) (map fst m)" and hd: "\<forall>y \<in> set (map fst m). k < y"
    using Cons.prems kv by simp_all
  show ?case
  proof (cases "key = k")
    case True
    then show ?thesis using Cons.prems kv by auto
  next
    case ne: False
    show ?thesis
    proof (cases "key < k")
      case True
      then have "\<forall>y \<in> set (map fst m). key < y" using hd by fastforce
      then show ?thesis using True ne Cons.prems kv by auto
    next
      case False
      then have "k < key" using ne by simp
      then show ?thesis using False ne kv hd Cons.IH [OF sm] by auto
    qed
  qed
qed

lemma suite_map_push_map_of:
  "sorted_wrt (<) (map fst m) \<Longrightarrow>
   map_of (suite_map_push m key i) =
     (map_of m)(key \<mapsto> (case map_of m key of None \<Rightarrow> [i] | Some v \<Rightarrow> v @ [i]))"
proof (induction m)
  case Nil
  then show ?case by simp
next
  case (Cons kv m)
  obtain k v where kv: "kv = (k, v)" by (cases kv)
  have sm: "sorted_wrt (<) (map fst m)" and hd: "\<forall>y \<in> set (map fst m). k < y"
    using Cons.prems kv by simp_all
  show ?case
  proof (cases "key = k")
    case True
    then show ?thesis using kv by (auto simp: fun_eq_iff)
  next
    case ne: False
    show ?thesis
    proof (cases "key < k")
      case True
      then have "key \<notin> fst ` set m" using hd by fastforce
      then have "map_of m key = None" by (simp add: map_of_eq_None_iff)
      then show ?thesis using True ne kv by (auto simp: fun_eq_iff)
    next
      case False
      then show ?thesis using ne kv Cons.IH [OF sm] by (auto simp: fun_eq_iff)
    qed
  qed
qed

lemma push_all_invariant:
  "sorted_wrt (<) (map fst (foldl (\<lambda>m i. suite_map_push m (key i) i) [] is)) \<and>
   set (map fst (foldl (\<lambda>m i. suite_map_push m (key i) i) [] is)) = key ` set is \<and>
   (\<forall>k. map_of (foldl (\<lambda>m i. suite_map_push m (key i) i) [] is) k =
      (if k \<in> key ` set is then Some (filter (\<lambda>i. key i = k) is) else None))"
proof (induction "is" rule: rev_induct)
  case Nil
  then show ?case by simp
next
  case (snoc j js)
  let ?m = "foldl (\<lambda>m i. suite_map_push m (key i) i) [] js"
  have s: "sorted_wrt (<) (map fst ?m)" using snoc by simp
  have keys: "set (map fst ?m) = key ` set js" using snoc by simp
  have mo: "\<And>k. map_of ?m k =
      (if k \<in> key ` set js then Some (filter (\<lambda>i. key i = k) js) else None)"
    using snoc by simp
  have f: "foldl (\<lambda>m i. suite_map_push m (key i) i) [] (js @ [j]) = suite_map_push ?m (key j) j"
    by simp
  have fresh: "filter (\<lambda>i. key i = key j) js = []" if "key j \<notin> key ` set js"
  proof -
    have "\<forall>x \<in> set js. key x \<noteq> key j" using that by (metis imageI)
    then show ?thesis by (simp add: filter_empty_conv)
  qed
  have "\<And>k. map_of (suite_map_push ?m (key j) j) k =
      (if k \<in> key ` set (js @ [j]) then Some (filter (\<lambda>i. key i = k) (js @ [j])) else None)"
    unfolding suite_map_push_map_of [OF s, of "key j" j] using mo fresh by auto
  then show ?case
    unfolding f
    using suite_map_push_keys [OF s, of "key j" j] keys
    by simp
qed

lemma group_by_suite_entries:
  "sorted_wrt (<) (map fst (group_by_suite tests)) \<and>
   set (map fst (group_by_suite tests)) = set (map suite tests) \<and>
   (\<forall>(s, indices) \<in> set (group_by_suite tests).
      indices = filter (\<lambda>i. suite (tests ! i) = s) [0..<length tests] \<and> indices \<noteq> [])"
proof -
  let ?key = "\<lambda>i. suite (tests ! i)"
  let ?is = "[0..<length tests]"
  note inv = push_all_invariant [of ?key ?is, folded group_by_suite_def]
  have img: "?key ` set ?is = set (map suite tests)"
  proof -
    have "map ?key ?is = map suite tests"
      by (rule nth_equalityI) simp_all
    then have "set (map ?key ?is) = set (map suite tests)" by simp
    then show ?thesis by simp
  qed
  have d: "distinct (map fst (group_by_suite tests))"
    using inv by (simp add: strict_sorted_iff)
  have "\<forall>(s, indices) \<in> set (group_by_suite tests).
      indices = filter (\<lambda>i. ?key i = s) ?is \<and> indices \<noteq> []"
  proof (clarify)
    fix s indices assume m: "(s, indices) \<in> set (group_by_suite tests)"
    then have "map_of (group_by_suite tests) s = Some indices"
      using d by simp
    moreover have "s \<in> ?key ` set ?is"
      using m inv by (metis (no_types, lifting) fst_conv image_eqI set_map)
    ultimately have eq: "indices = filter (\<lambda>i. ?key i = s) ?is" using inv by simp
    have "filter (\<lambda>i. ?key i = s) ?is \<noteq> []"
      using \<open>s \<in> ?key ` set ?is\<close> by (auto simp: filter_empty_conv)
    then show "indices = filter (\<lambda>i. ?key i = s) ?is \<and> indices \<noteq> []" using eq by simp
  qed
  then show ?thesis using inv img by simp
qed




lemma testsuites_of_names:
  "map ts_name (testsuites_of large fx tests fails durations m) = map fst m"
  by (induction m arbitrary: fx) (auto simp: testsuite_of_def Let_def)

lemma testsuites_of_members:
  "ts \<in> set (testsuites_of large fx tests fails durations m) \<Longrightarrow>
   \<exists>s indices fx'. (s, indices) \<in> set m \<and>
     ts = testsuite_of large fx' tests fails durations s indices"
proof (induction m arbitrary: fx)
  case Nil
  then show ?case by simp
next
  case (Cons a m)
  obtain s indices where a: "a = (s, indices)" by (cases a)
  from Cons.prems a consider "ts = testsuite_of large fx tests fails durations s indices"
    | "ts \<in> set (testsuites_of large (fx \<or> indices \<noteq> []) tests fails durations m)"
    by auto
  then show ?case
  proof cases
    case 1
    then show ?thesis using a by auto
  next
    case 2
    then show ?thesis using Cons.IH by fastforce
  qed
qed


lemma suite_names_sorted:
  "map ts_name (tss_suites (xml_document large tests fails durations)) =
     sort (remdups (map suite tests))"
proof -
  let ?m = "group_by_suite tests"
  have n: "map ts_name (tss_suites (xml_document large tests fails durations)) = map fst ?m"
    by (simp add: xml_document_def testsuites_of_names)
  have "sorted (map fst ?m)" "distinct (map fst ?m)"
    using group_by_suite_entries [of tests] by (simp_all add: strict_sorted_iff)
  moreover have "set (map fst ?m) = set (sort (remdups (map suite tests)))"
    using group_by_suite_entries [of tests] by simp
  ultimately have "map fst ?m = sort (remdups (map suite tests))"
    by (intro sorted_distinct_set_unique) simp_all
  then show ?thesis using n by simp
qed

lemma suite_element:
  assumes "ts \<in> set (tss_suites (xml_document large tests fails durations))"
  shows "\<exists>fx. ts = testsuite_of large fx tests fails durations (ts_name ts)
           (filter (\<lambda>i. suite (tests ! i) = ts_name ts) [0..<length tests])"
proof -
  obtain s indices fx where m: "(s, indices) \<in> set (group_by_suite tests)"
      and ts: "ts = testsuite_of large fx tests fails durations s indices"
    using assms testsuites_of_members by (fastforce simp: xml_document_def)
  have i: "indices = filter (\<lambda>i. suite (tests ! i) = s) [0..<length tests]"
    using group_by_suite_entries [of tests] m by blast
  have n: "s = ts_name ts" using ts by (simp add: testsuite_of_def Let_def)
  have a: "ts = testsuite_of large fx tests fails durations s
      (filter (\<lambda>i. suite (tests ! i) = s) [0..<length tests])"
    using ts i by simp
  have "ts = testsuite_of large fx tests fails durations (ts_name ts)
      (filter (\<lambda>i. suite (tests ! i) = ts_name ts) [0..<length tests])"
    by (rule subst [OF n, where P = "\<lambda>x. ts = testsuite_of large fx tests fails durations x
      (filter (\<lambda>i. suite (tests ! i) = x) [0..<length tests])"]) (rule a)
  then show ?thesis by blast
qed

text \<open>
  The report of the three example tests, computed.
\<close>

lemmas number_format_defs =
  put_double_def general6_def fixed3_def pad3_def digit_char_def strip_zeros_def
  show_nat.simps show_int_def int32_def

lemma group_report_tests:
  "group_by_suite report_tests = [(''Alpha'', [1]), (''Beta'', [0, 2])]"
  by (simp add: group_by_suite_def report_tests_def upt_rec)

lemma report_suites:
  "tss_suites (xml_document (\<lambda>ms. []) report_tests report_failures report_durations) =
    [\<lparr>ts_name = ''Alpha'', ts_tests = 1, ts_failures = 1, ts_time = ''1.5'',
      ts_cases =
        [\<lparr>tc_name = ''Second'', tc_result = ''failed'', tc_time = ''1.500'',
          tc_classname = ''Alpha'',
          tc_failures = [\<lparr>fatal = False, message = ''m1'', file_name = ''t.cpp'', line = 11\<rparr>]\<rparr>]\<rparr>,
     \<lparr>ts_name = ''Beta'', ts_tests = 2, ts_failures = 2, ts_time = ''0.012'',
      ts_cases =
        [\<lparr>tc_name = ''First'', tc_result = ''completed'', tc_time = ''0.000'',
          tc_classname = ''Beta'', tc_failures = []\<rparr>,
         \<lparr>tc_name = ''Third'', tc_result = ''failed'', tc_time = ''0.012'',
          tc_classname = ''Beta'',
          tc_failures = [\<lparr>fatal = False, message = ''m2'', file_name = ''t.cpp'', line = 21\<rparr>,
                         \<lparr>fatal = True, message = ''m3'', file_name = ''t.cpp'', line = 22\<rparr>]\<rparr>]\<rparr>]"
  unfolding xml_document_def group_report_tests
  by (simp add: testsuite_of_def testcase_of_def report_tests_def report_failures_def
      report_durations_def number_format_defs)

text \<open>
  Fixed notation with precision three gives digits, a point and three digits. Every test
  case time is written that way, and so is every suite time but that of the first suite.
\<close>

lemma digit_char_is_digit: "d < 10 \<Longrightarrow> is_digit (digit_char d)"
proof -
  assume "d < 10"
  then have "d < length ''0123456789''" by simp
  then have "''0123456789'' ! d \<in> set ''0123456789''" by (rule nth_mem)
  then show ?thesis by (simp only: is_digit_def digit_char_def)
qed

lemma show_nat_digits: "show_nat n \<noteq> [] \<and> list_all is_digit (show_nat n)"
proof (induction n rule: show_nat.induct)
  case (1 n)
  show ?case
  proof (cases "n < 10")
    case True
    then show ?thesis
      by (subst (1 2) show_nat.simps) (simp add: digit_char_is_digit)
  next
    case False
    then show ?thesis
      using "1.IH" by (subst (1 2) show_nat.simps) (simp add: digit_char_is_digit)
  qed
qed

lemma point_not_digit: "is_digit c \<Longrightarrow> c \<noteq> CHR ''.''"
  by (auto simp: is_digit_def)

lemma three_decimals_fixed3: "three_decimals (fixed3 ms)"
proof -
  let ?ip = "show_nat (ms div 1000)"
  let ?P = "\<lambda>c. c \<noteq> CHR ''.''"
  have all: "\<And>c. c \<in> set ?ip \<Longrightarrow> ?P c"
    using show_nat_digits [of "ms div 1000"] point_not_digit by (auto simp: list_all_iff)
  have t: "takeWhile ?P (fixed3 ms) = ?ip"
    unfolding fixed3_def using all by (simp add: takeWhile_append2)
  have d: "dropWhile ?P (fixed3 ms) = ''.'' @ pad3 (ms mod 1000)"
    unfolding fixed3_def using all by (simp add: dropWhile_append2)
  have p: "length (pad3 (ms mod 1000)) = 3" "list_all is_digit (pad3 (ms mod 1000))"
    by (simp_all add: pad3_def digit_char_is_digit)
  show ?thesis
    unfolding three_decimals_def t d Let_def
    using show_nat_digits [of "ms div 1000"] p by simp
qed

lemma testsuites_of_fixed:
  "ts \<in> set (testsuites_of large True tests fails durations m) \<Longrightarrow>
   three_decimals (ts_time ts)"
proof (induction m)
  case Nil
  then show ?case by simp
next
  case (Cons a m)
  obtain s indices where a: "a = (s, indices)" by (cases a)
  show ?case
    using Cons a
    by (auto simp: testsuite_of_def Let_def put_double_def three_decimals_fixed3)
qed

lemma times_fixed_after_first:
  "(\<forall>ts \<in> set (tl (tss_suites (xml_document large tests fails durations))).
      three_decimals (ts_time ts)) \<and>
   (\<forall>ts \<in> set (tss_suites (xml_document large tests fails durations)).
      \<forall>tc \<in> set (ts_cases ts). three_decimals (tc_time tc))"
proof (intro conjI ballI)
  fix ts assume m: "ts \<in> set (tl (tss_suites (xml_document large tests fails durations)))"
  show "three_decimals (ts_time ts)"
  proof (cases "group_by_suite tests")
    case Nil
    then show ?thesis using m by (simp add: xml_document_def)
  next
    case (Cons a g)
    obtain s indices where a: "a = (s, indices)" by (cases a)
    have "indices \<noteq> []"
      using group_by_suite_entries [of tests] Cons a by auto
    then have "ts \<in> set (testsuites_of large True tests fails durations g)"
      using m Cons a by (simp add: xml_document_def)
    then show ?thesis by (rule testsuites_of_fixed)
  qed
next
  fix ts tc
  assume m: "ts \<in> set (tss_suites (xml_document large tests fails durations))"
    and c: "tc \<in> set (ts_cases ts)"
  obtain fx where "ts = testsuite_of large fx tests fails durations (ts_name ts)
      (filter (\<lambda>i. suite (tests ! i) = ts_name ts) [0..<length tests])"
    using suite_element [OF m] by blast
  then have "ts_cases ts = map (testcase_of tests fails durations (ts_name ts))
      (filter (\<lambda>i. suite (tests ! i) = ts_name ts) [0..<length tests])"
    by (metis (no_types, lifting) testsuite_of_def testsuite_el.select_convs(5))
  then obtain i where "tc = testcase_of tests fails durations (ts_name ts) i"
    using c by auto
  then show "three_decimals (tc_time tc)"
    by (simp add: testcase_of_def three_decimals_fixed3)
qed

section \<open>The test runner: claims\<close>




text \<open>
  C2 (not met by the code). The specification asks that a failure other than the abort
  signal is recorded and that the run continues with the next test. In the code the handler
  records it by \<open>AddFailure\<close> with \<open>fatal = true\<close>, and that call throws
  \<^verbatim>\<open>AssertionException\<close> out of the handler. For a body that throws
  \<^verbatim>\<open>std::runtime_error("boom")\<close>: the \<^verbatim>\<open>try\<close> block is left by \<^verbatim>\<open>AssertionException\<close> with the
  record \<^verbatim>\<open>unknown:0\<close> in the context, and the loop over two registered tests ends with
  that exception instead of running the second test.
\<close>

theorem unexpected_exception_escapes:
  "run_test_func throwing_body (initial_globals ()\<lparr>current_context := Some \<lparr>failures = []\<rparr>\<rparr>) =
     (Some AssertionException,
      initial_globals ()\<lparr>current_context := Some \<lparr>failures =
        [\<lparr>fatal = True, message = ''Unhandled exception: boom'',
          file_name = ''unknown'', line = 0\<rparr>]\<rparr>\<rparr>) \<and>
   run_tests (example_env 0 (\<lambda>d. None))
       [\<lparr>suite = ''S'', name = ''Throws'', func = throwing_body\<rparr>,
        \<lparr>suite = ''S'', name = ''Next'', func = passing_body\<rparr>] 0
       \<lparr>failed = 0, all_failures = [[], []], durations_ms = [0, 0]\<rparr> (initial_globals ()) =
     Inl AssertionException"
proof -
  let ?st1 = "initial_globals ()\<lparr>current_context := Some \<lparr>failures = []\<rparr>\<rparr>"
  have t: "throwing_body ?st1 = (Some (StdException ''boom''), ?st1)"
    by (simp add: throwing_body_def)
  have c: "current_context ?st1 = Some \<lparr>failures = []\<rparr>" by simp
  have a: "run_test_func throwing_body ?st1 =
     (Some AssertionException,
      initial_globals ()\<lparr>current_context := Some \<lparr>failures =
        [\<lparr>fatal = True, message = ''Unhandled exception: boom'',
          file_name = ''unknown'', line = 0\<rparr>]\<rparr>\<rparr>)"
    using run_test_func_std_exception [where f = throwing_body and st = ?st1, OF t c] by simp
  have b: "run_tests (example_env 0 (\<lambda>d. None))
       [\<lparr>suite = ''S'', name = ''Throws'', func = throwing_body\<rparr>,
        \<lparr>suite = ''S'', name = ''Next'', func = passing_body\<rparr>] 0
       \<lparr>failed = 0, all_failures = [[], []], durations_ms = [0, 0]\<rparr> (initial_globals ()) =
     Inl AssertionException"
    by (rule run_tests_unexpected_escapes [where st' = ?st1 and ex = "StdException ''boom''"])
       (simp_all add: throwing_body_def)
  show ?thesis using a b by simp
qed

text \<open>
  C3 (not met by the code). \<open>RunAllTests\<close> returns \<open>0\<close> or \<open>1\<close> from the test outcomes alone
  whenever it returns (\<open>RunAllTests_status\<close>), but it does not always return. With one passing
  test and an output path whose directory cannot be created, no status \<open>0\<close> is returned:
  the exception of \<^verbatim>\<open>create_directories\<close> leaves \<open>RunAllTests\<close>, so writing the report decides
  how the process ends, whereas a stream that does not open only gives a warning. With one
  registered test whose body throws \<^verbatim>\<open>std::runtime_error\<close>, a failure is recorded and yet no
  status \<open>1\<close> is returned: \<^verbatim>\<open>AssertionException\<close> leaves \<open>RunAllTests\<close>.
\<close>

theorem no_exit_status_when_exception_escapes:
  "gtest_main (example_env 0 (\<lambda>d. Some ''filesystem error''))
     [\<lparr>suite = ''S'', name = ''Passes'', func = passing_body\<rparr>]
     [''prog'', ''--gtest_output=xml:/proc/version/r.xml''] (initial_globals ()) =
     Inl (StdException ''filesystem error'') \<and>
   RunAllTests (example_env 0 (\<lambda>d. None))
     [\<lparr>suite = ''S'', name = ''Throws'', func = throwing_body\<rparr>] (initial_globals ()) =
     Inl AssertionException"
proof -
  let ?st1 = "initial_globals ()\<lparr>current_context := Some \<lparr>failures = []\<rparr>\<rparr>"
  have "run_tests (example_env 0 (\<lambda>d. None))
       [\<lparr>suite = ''S'', name = ''Throws'', func = throwing_body\<rparr>] 0
       \<lparr>failed = 0, all_failures = [[]], durations_ms = [0]\<rparr> (initial_globals ()) =
     Inl AssertionException"
    by (rule run_tests_unexpected_escapes [where st' = ?st1 and ex = "StdException ''boom''"])
       (simp_all add: throwing_body_def)
  then have a: "RunAllTests (example_env 0 (\<lambda>d. None))
     [\<lparr>suite = ''S'', name = ''Throws'', func = throwing_body\<rparr>] (initial_globals ()) =
     Inl AssertionException"
    by (simp add: RunAllTests_def)
  let ?e = "example_env 0 (\<lambda>d. Some ''filesystem error'')"
  let ?tests = "[\<lparr>suite = ''S'', name = ''Passes'', func = passing_body\<rparr>]"
  let ?st = "initial_globals ()\<lparr>g_output_path := ''/proc/version/r.xml''\<rparr>"
  have i: "InitGoogleTest [''prog'', ''--gtest_output=xml:/proc/version/r.xml''] (initial_globals ()) = ?st"
    by (simp add: InitGoogleTest_def starts_with_def gtest_output_prefix_def)
  have "run_tests ?e ?tests 0 \<lparr>failed = 0, all_failures = [[]], durations_ms = [0]\<rparr> ?st =
      run_tests ?e ?tests 1 \<lparr>failed = 0, all_failures = [[]], durations_ms = [0]\<rparr> ?st"
    by (subst run_tests.simps)
      (simp add: run_test_func_def passing_body_def ctx_failures_def initial_globals_def
        example_env_def)
  also have "\<dots> = Inr (\<lparr>failed = 0, all_failures = [[]], durations_ms = [0]\<rparr>, ?st)"
    by (subst run_tests.simps) simp
  finally have "RunAllTests ?e ?tests ?st = Inl (StdException ''filesystem error'')"
    by (simp add: RunAllTests_def WriteXmlReport_def example_env_def Let_def)
  then show ?thesis using a i by (simp add: gtest_main_def)
qed

text \<open>
  C4 (amended). The \<^verbatim>\<open><testsuite>\<close> elements appear in ascending lexicographic order of
  suite name, each suite name once: the iteration order of the \<^verbatim>\<open>std::map\<close> that groups
  the tests, not the order of first appearance. Within a suite the test cases keep the
  registration order.
\<close>

theorem suites_in_name_order:
  "map ts_name (tss_suites (xml_document large tests fails durations)) =
     sort (remdups (map suite tests)) \<and>
   (\<forall>ts \<in> set (tss_suites (xml_document large tests fails durations)).
      map tc_name (ts_cases ts) =
        map (\<lambda>i. name (tests ! i))
          (filter (\<lambda>i. suite (tests ! i) = ts_name ts) [0..<length tests]))"
proof (intro conjI ballI)
  show "map ts_name (tss_suites (xml_document large tests fails durations)) =
     sort (remdups (map suite tests))"
    by (rule suite_names_sorted)
next
  fix ts assume "ts \<in> set (tss_suites (xml_document large tests fails durations))"
  then obtain fx where "ts = testsuite_of large fx tests fails durations (ts_name ts)
           (filter (\<lambda>i. suite (tests ! i) = ts_name ts) [0..<length tests])"
    using suite_element by blast
  then have "ts_cases ts = map (testcase_of tests fails durations (ts_name ts))
           (filter (\<lambda>i. suite (tests ! i) = ts_name ts) [0..<length tests])"
    by (metis (no_types, lifting) testsuite_of_def testsuite_el.select_convs(5))
  then show "map tc_name (ts_cases ts) =
        map (\<lambda>i. name (tests ! i))
          (filter (\<lambda>i. suite (tests ! i) = ts_name ts) [0..<length tests])"
    by (simp add: testcase_of_def comp_def)
qed

theorem suites_in_name_order_witness:
  "map ts_name (tss_suites (xml_document (\<lambda>ms. []) report_tests report_failures
       report_durations)) = [''Alpha'', ''Beta''] \<and>
   map (\<lambda>ts. map tc_name (ts_cases ts))
     (tss_suites (xml_document (\<lambda>ms. []) report_tests report_failures report_durations)) =
     [[''Second''], [''First'', ''Third'']]"
  using suites_in_name_order [of "\<lambda>ms. []" report_tests report_failures report_durations]
  by (simp add: report_suites)

text \<open>
  The statement with the order of first appearance fails: with the suites registered in
  the order \<^verbatim>\<open>Beta\<close>, \<^verbatim>\<open>Alpha\<close>, \<^verbatim>\<open>Beta\<close>, the report lists \<^verbatim>\<open>Alpha\<close> before \<^verbatim>\<open>Beta\<close>.
\<close>

theorem first_appearance_order_counterexample:
  "map ts_name (tss_suites (xml_document (\<lambda>ms. []) report_tests report_failures
       report_durations)) = [''Alpha'', ''Beta''] \<and>
   first_appearance (map suite report_tests) = [''Beta'', ''Alpha''] \<and>
   map ts_name (tss_suites (xml_document (\<lambda>ms. []) report_tests report_failures
       report_durations)) \<noteq> first_appearance (map suite report_tests)"
proof -
  have a: "map ts_name (tss_suites (xml_document (\<lambda>ms. []) report_tests report_failures
       report_durations)) = [''Alpha'', ''Beta'']"
    by (simp add: report_suites)
  have b: "first_appearance (map suite report_tests) = [''Beta'', ''Alpha'']"
    by (simp add: report_tests_def)
  show ?thesis unfolding a b by simp
qed




text \<open>
  C6 (not met by the code). The specification asks for three decimal digits in every time
  value. The stream is set to fixed notation with precision three when the first test case
  is written, after the time of the first suite. With one passing test of \<open>0\<close> ms and the
  option \<^verbatim>\<open>--gtest_output=xml:out/r.xml\<close>, the file written has \<^verbatim>\<open>time="0"\<close> in its first
  \<^verbatim>\<open>testsuite\<close> element and \<^verbatim>\<open>time="0.000"\<close> in the test case. All other time values
  have three decimals (\<open>times_fixed_after_first\<close>).
\<close>

theorem first_suite_time_not_fixed:
  \<open>gtest_main (example_env 0 (\<lambda>d. None))
     [\<lparr>suite = ''S'', name = ''T'', func = passing_body\<rparr>]
     [''prog'', ''--gtest_output=xml:out/r.xml''] (initial_globals ()) =
   Inr (0,
     [CreateDirectories ''out'',
      WriteFile ''out/r.xml''
       (''<?xml version="1.0" encoding="UTF-8"?>\<newline>'' @
        ''<testsuites tests="1" failures="0" disabled="0" errors="0">\<newline>'' @
        ''  <testsuite name="S" tests="1" failures="0" disabled="0" errors="0" time="0">\<newline>'' @
        ''    <testcase name="T" status="run" result="completed" time="0.000" classname="S"></testcase>\<newline>'' @
        ''  </testsuite>\<newline>'' @
        ''</testsuites>\<newline>'')],
     initial_globals ()\<lparr>g_output_path := ''out/r.xml''\<rparr>) \<and>
   \<not> three_decimals ''0'' \<and> three_decimals ''0.000''\<close>
proof -
  let ?e = "example_env 0 (\<lambda>d. None)"
  let ?tests = "[\<lparr>suite = ''S'', name = ''T'', func = passing_body\<rparr>]"
  let ?st = "initial_globals ()\<lparr>g_output_path := ''out/r.xml''\<rparr>"
  have i: "InitGoogleTest [''prog'', ''--gtest_output=xml:out/r.xml''] (initial_globals ()) = ?st"
    by (simp add: InitGoogleTest_def starts_with_def gtest_output_prefix_def)
  have "run_tests ?e ?tests 0 \<lparr>failed = 0, all_failures = [[]], durations_ms = [0]\<rparr> ?st =
      run_tests ?e ?tests 1 \<lparr>failed = 0, all_failures = [[]], durations_ms = [0]\<rparr> ?st"
    by (subst run_tests.simps)
      (simp add: run_test_func_def passing_body_def ctx_failures_def initial_globals_def
        example_env_def)
  also have "\<dots> = Inr (\<lparr>failed = 0, all_failures = [[]], durations_ms = [0]\<rparr>, ?st)"
    by (subst run_tests.simps) simp
  finally have r: "run_tests ?e ?tests 0
      \<lparr>failed = 0, all_failures = [[]], durations_ms = [0]\<rparr> ?st =
      Inr (\<lparr>failed = 0, all_failures = [[]], durations_ms = [0]\<rparr>, ?st)" .
  have g: "group_by_suite ?tests = [(''S'', [0])]"
    by (simp add: group_by_suite_def)
  have d: "xml_document (large_double ?e) ?tests [[]] [0] =
      \<lparr>tss_tests = 1, tss_failures = 0,
       tss_suites = [\<lparr>ts_name = ''S'', ts_tests = 1, ts_failures = 0, ts_time = ''0'',
          ts_cases = [\<lparr>tc_name = ''T'', tc_result = ''completed'', tc_time = ''0.000'',
             tc_classname = ''S'', tc_failures = []\<rparr>]\<rparr>]\<rparr>"
    unfolding xml_document_def g
    by (simp add: testsuite_of_def testcase_of_def number_format_defs)
  have w: "WriteXmlReport ?e ?tests [[]] [0] ?st =
      Inr [CreateDirectories ''out'',
           WriteFile ''out/r.xml'' (render_document (xml_document (large_double ?e) ?tests [[]] [0]))]"
    by (simp add: WriteXmlReport_def Let_def example_env_def initial_globals_def)
  have t: "\<not> three_decimals ''0''" "three_decimals ''0.000''"
    by (simp_all add: three_decimals_def is_digit_def)
  show ?thesis
    unfolding gtest_main_def i
    by (simp add: RunAllTests_def r w d t render_document_def render_testsuite_def
        render_testcase_def number_format_defs)
qed

text \<open>
  C7. \<open>InitGoogleTest\<close> looks at the arguments after the program name. When some of them
  start with \<^verbatim>\<open>--gtest_output=xml:\<close>, the output path becomes the text after the prefix
  (of the last such argument); when none does, the state is unchanged, and from the
  initial state \<open>WriteXmlReport\<close> then touches no file. Arguments of any other form are
  ignored: dropping them changes nothing, and the function is total. A non-empty output
  path is the file that \<open>WriteXmlReport\<close> writes when its directory can be created and
  the file opens.
\<close>

theorem output_path_option:
  "(filter (starts_with gtest_output_prefix) (drop 1 argv) \<noteq> [] \<longrightarrow>
      InitGoogleTest argv st =
        st\<lparr>g_output_path := drop (length gtest_output_prefix)
             (last (filter (starts_with gtest_output_prefix) (drop 1 argv)))\<rparr>) \<and>
   (filter (starts_with gtest_output_prefix) (drop 1 argv) = [] \<longrightarrow>
      InitGoogleTest argv st = st \<and>
      WriteXmlReport e tests fails durations (InitGoogleTest argv (initial_globals w)) = Inr []) \<and>
   InitGoogleTest argv st =
     InitGoogleTest (take 1 argv @ filter (starts_with gtest_output_prefix) (drop 1 argv)) st \<and>
   (g_output_path st \<noteq> [] \<and> create_directories_error e (parent_path e (g_output_path st)) = None \<and>
    ofstream_is_open e (g_output_path st) \<longrightarrow>
      WriteXmlReport e tests fails durations st =
        Inr [CreateDirectories (parent_path e (g_output_path st)),
             WriteFile (g_output_path st)
               (render_document (xml_document (large_double e) tests fails durations))])"
proof -
  let ?flags = "filter (starts_with gtest_output_prefix) (drop 1 argv)"
  have 1: "?flags \<noteq> [] \<longrightarrow> InitGoogleTest argv st =
      st\<lparr>g_output_path := drop (length gtest_output_prefix) (last ?flags)\<rparr>"
    by (simp add: InitGoogleTest_def InitGoogleTest_args_flags split: list.splits)
  have 2: "?flags = [] \<longrightarrow> InitGoogleTest argv st = st \<and>
      WriteXmlReport e tests fails durations (InitGoogleTest argv (initial_globals w)) = Inr []"
    by (simp add: InitGoogleTest_def InitGoogleTest_args_flags WriteXmlReport_def
        initial_globals_def)
  have "drop 1 (take 1 argv @ ?flags) = ?flags" by (cases argv) simp_all
  then have 3: "InitGoogleTest argv st = InitGoogleTest (take 1 argv @ ?flags) st"
    by (simp add: InitGoogleTest_def InitGoogleTest_args_flags del: drop_append)
  have 4: "g_output_path st \<noteq> [] \<and>
      create_directories_error e (parent_path e (g_output_path st)) = None \<and>
      ofstream_is_open e (g_output_path st) \<longrightarrow>
      WriteXmlReport e tests fails durations st =
        Inr [CreateDirectories (parent_path e (g_output_path st)),
             WriteFile (g_output_path st)
               (render_document (xml_document (large_double e) tests fails durations))]"
    by (simp add: WriteXmlReport_def Let_def)
  show ?thesis using 1 2 3 4 by blast
qed

theorem output_path_option_witness:
  "InitGoogleTest [''prog'', ''--verbose'', ''--gtest_output=xml:out/r.xml''] (initial_globals ()) =
     initial_globals ()\<lparr>g_output_path := ''out/r.xml''\<rparr> \<and>
   InitGoogleTest [''prog'', ''--verbose''] (initial_globals ()) = initial_globals () \<and>
   WriteXmlReport (example_env 0 (\<lambda>d. None)) report_tests report_failures report_durations
     (InitGoogleTest [''prog'', ''--verbose''] (initial_globals ())) = Inr [] \<and>
   WriteXmlReport (example_env 0 (\<lambda>d. None)) report_tests report_failures report_durations
     (initial_globals ()\<lparr>g_output_path := ''out/r.xml''\<rparr>) =
     Inr [CreateDirectories ''out'',
          WriteFile ''out/r.xml''
            (render_document (xml_document (\<lambda>ms. []) report_tests report_failures
               report_durations))]"
proof -
  let ?e = "example_env 0 (\<lambda>d. None)"
  let ?a1 = "[''prog'', ''--verbose'', ''--gtest_output=xml:out/r.xml'']"
  let ?a2 = "[''prog'', ''--verbose'']"
  let ?st = "initial_globals ()\<lparr>g_output_path := ''out/r.xml''\<rparr>"
  have f1: "filter (starts_with gtest_output_prefix) (drop 1 ?a1) = [''--gtest_output=xml:out/r.xml'']"
    by (simp add: starts_with_def gtest_output_prefix_def)
  have f2: "filter (starts_with gtest_output_prefix) (drop 1 ?a2) = []"
    by (simp add: starts_with_def gtest_output_prefix_def)
  have p: "drop (length gtest_output_prefix) ''--gtest_output=xml:out/r.xml'' = ''out/r.xml''"
    by (simp add: gtest_output_prefix_def)
  have 1: "InitGoogleTest ?a1 (initial_globals ()) = ?st"
    using output_path_option [of ?a1 "initial_globals ()" ?e report_tests report_failures
        report_durations "()"]
    unfolding f1 by (simp add: p)
  have 2: "InitGoogleTest ?a2 (initial_globals ()) = initial_globals () \<and>
      WriteXmlReport ?e report_tests report_failures report_durations
        (InitGoogleTest ?a2 (initial_globals ())) = Inr []"
    using f2 output_path_option [of ?a2 "initial_globals ()" ?e report_tests report_failures
        report_durations "()"]
    by blast
  have 3: "WriteXmlReport ?e report_tests report_failures report_durations ?st =
     Inr [CreateDirectories ''out'',
          WriteFile ''out/r.xml''
            (render_document (xml_document (\<lambda>ms. []) report_tests report_failures
               report_durations))]"
    using output_path_option [of ?a2 ?st ?e report_tests report_failures report_durations "()"]
    by (simp add: example_env_def)
  show ?thesis using 1 2 3 by blast
qed

section \<open>The min-heap and the null context: claims\<close>




text \<open>
  C9. When no context is installed (\<^verbatim>\<open>current_context\<close> is null), \<open>AddFailure\<close> does
  nothing: it records nothing, raises no abort signal even when \<open>fatal\<close> is true, and
  leaves the state as it was. The same holds for the assertion helpers, whether their
  check fails or not, since they reach the context only through \<open>AddFailure\<close>.
\<close>

theorem no_context_no_op:
  "current_context st = None \<Longrightarrow>
     AddFailure fl ln msg ftl st = (None, st) \<and>
     ExpectEqual shw a b a_expr b_expr fl ln ftl st = (None, st) \<and>
     ExpectNotEqual shw c d c_expr d_expr fl ln ftl st = (None, st) \<and>
     ExpectTrue cond expr fl ln ftl st = (None, st)"
  by (simp add: ExpectEqual_def ExpectNotEqual_def ExpectTrue_def AddFailure_no_context)

theorem no_context_no_op_witness:
  "current_context (initial_globals ()) = None \<and>
   AddFailure ''t.cpp'' 7 ''m'' True (initial_globals ()) = (None, initial_globals ()) \<and>
   ExpectEqual show_int 2 1 ''x'' ''1'' ''t.cpp'' 7 True (initial_globals ()) = (None, initial_globals ()) \<and>
   ExpectNotEqual show_int 1 1 ''x'' ''1'' ''t.cpp'' 7 True (initial_globals ()) = (None, initial_globals ()) \<and>
   ExpectTrue False ''x'' ''t.cpp'' 7 True (initial_globals ()) = (None, initial_globals ())"
proof -
  have n: "current_context (initial_globals ()) = None" by (simp add: initial_globals_def)
  show ?thesis
    using n no_context_no_op [OF n, where fl = "''t.cpp''" and ln = 7 and msg = "''m''"
        and ftl = True and shw = show_int and a = 2 and b = 1 and a_expr = "''x''"
        and b_expr = "''1''" and c = 1 and d = 1 and c_expr = "''x''" and d_expr = "''1''"
        and cond = False and expr = "''x''"]
    by (simp only:)
qed

text \<open>
  C10. On every queue with \<open>size = 0\<close>, \<open>min_heap_delete_min\<close> returns \<open>-1\<close> and leaves
  buffer, size and capacity as they were, and \<open>min_heap_peek_min\<close> returns \<open>-1\<close>. The same
  value is returned when \<open>-1\<close> is genuinely stored: on the queue obtained by inserting
  \<open>-1\<close> into the empty queue (the allocation succeeding), \<open>min_heap_peek_min\<close> and
  \<open>min_heap_delete_min\<close> return \<open>-1\<close> as well, so the returned value does not tell the two
  situations apart.
\<close>

theorem empty_queue_sentinel:
  "q_size h = 0 \<Longrightarrow>
     min_heap_delete_min h = Some (- 1, h) \<and>
     min_heap_peek_min (q_heap h) (q_size h) = Some (- 1) \<and>
     (\<exists>h1 h2. min_heap_insert (\<lambda>n. True) junk empty_queue (- 1) = Some h1 \<and> q_size h1 = 1 \<and>
        min_heap_peek_min (q_heap h1) (q_size h1) = Some (- 1) \<and>
        min_heap_delete_min h1 = Some (- 1, h2))"
proof -
  assume e: "q_size h = 0"
  have "q_size empty_queue < 1342177280" "(\<lambda>n. True) (2 * q_size empty_queue)"
    by (simp_all add: empty_queue_ok)
  from insert_step [OF empty_queue_ok(1) empty_queue_capacity_ok this(1) TrueI this(2),
      of junk "- 1"]
  obtain h1 where h1: "min_heap_insert (\<lambda>n. True) junk empty_queue (- 1) = Some h1" "heap_ok h1"
      "contents h1 = {#- 1#}" "q_size h1 = 1"
    by (auto simp: empty_queue_ok)
  have nonempty: "q_heap h1 \<noteq> []" using h1(2,4) by (auto simp: heap_ok_def)
  then have "take 1 (q_heap h1) = [q_heap h1 ! 0]"
    by (cases "q_heap h1") simp_all
  then have root: "q_heap h1 ! 0 = - 1"
    using h1(3,4) by (simp add: contents_def)
  have peek: "min_heap_peek_min (q_heap h1) (q_size h1) = Some (- 1)"
    using nonempty root h1(4) by (simp add: min_heap_peek_min_def)
  have del: "\<exists>h2. min_heap_delete_min h1 = Some (- 1, h2)"
    using nonempty root h1(4) by (simp add: min_heap_delete_min_def Let_def)
  show ?thesis
    using e h1(1,4) peek del by (simp add: min_heap_delete_min_def min_heap_peek_min_def)
qed

theorem empty_queue_sentinel_witness:
  "q_size empty_queue = 0 \<and>
   min_heap_delete_min empty_queue = Some (- 1, empty_queue) \<and>
   min_heap_peek_min (q_heap empty_queue) (q_size empty_queue) = Some (- 1) \<and>
   (\<exists>h1 h2. min_heap_insert (\<lambda>n. True) (\<lambda>i. 0) empty_queue (- 1) = Some h1 \<and> q_size h1 = 1 \<and>
      min_heap_peek_min (q_heap h1) (q_size h1) = Some (- 1) \<and>
      min_heap_delete_min h1 = Some (- 1, h2))"
proof -
  have z: "q_size empty_queue = 0" by (simp add: empty_queue_def)
  show ?thesis using z empty_queue_sentinel [OF z, of "\<lambda>i. 0"] by (simp only:)
qed


end
